theory Spec2Isabelle
  imports Main
begin

section \<open>Memory hooks of cupy.cuda: the model of memory\_hook.py\<close>

subsection \<open>Python values and exceptions\<close>

text \<open>
  The values a callback can return (only \<open>None\<close> matters below) and the exceptions
  that occur. \<open>KeyError\<close> carries its argument: the message built by
  \<open>__enter__\<close>, or the missing key of \<open>del d[k]\<close>.
\<close>

datatype pyval = PyNone | PyInt int | PyStr string

datatype py_error =
    KeyError string
  | AllocationExhaustionError
  | HookCallbackError string

text \<open>The keyword arguments of a callback: attribute names with integer values.\<close>

type_synonym kwargs = "(string \<times> int) list"

subsection \<open>Hooks\<close>

text \<open>
  A callback is a bound method \<open>hook.cb(**kwargs)\<close>: it runs on the state \<open>'w\<close> that
  user code can observe (logs, counters, the hook's own fields) and either returns a
  value or raises; the state it leaves behind is kept in both cases. Callbacks do not
  register or unregister hooks: what a fan-out does when a callback changes the
  registry under it is left open by the design.
\<close>

type_synonym 'w callback = "kwargs \<Rightarrow> 'w \<Rightarrow> (py_error + pyval) \<times> 'w"

text \<open>
  An instance of \<open>MemoryHook\<close> or of a subclass: its object identity, the \<open>name\<close>
  attribute and its six methods, each the base-class body unless the subclass overrides it.
\<close>

record 'w hook =
  hook_id :: nat
  name :: string
  alloc_preprocess :: "'w callback"
  alloc_postprocess :: "'w callback"
  malloc_preprocess :: "'w callback"
  malloc_postprocess :: "'w callback"
  free_preprocess :: "'w callback"
  free_postprocess :: "'w callback"

text \<open>The class attribute \<open>name = 'MemoryHook'\<close>.\<close>

definition MemoryHook_name :: string where
  "MemoryHook_name = ''MemoryHook''"

text \<open>The six method bodies of the base class: each is \<open>pass\<close>.\<close>

definition MemoryHook_alloc_preprocess :: "'w callback" where
  "MemoryHook_alloc_preprocess kw w = (Inr PyNone, w)"

definition MemoryHook_alloc_postprocess :: "'w callback" where
  "MemoryHook_alloc_postprocess kw w = (Inr PyNone, w)"

definition MemoryHook_malloc_preprocess :: "'w callback" where
  "MemoryHook_malloc_preprocess kw w = (Inr PyNone, w)"

definition MemoryHook_malloc_postprocess :: "'w callback" where
  "MemoryHook_malloc_postprocess kw w = (Inr PyNone, w)"

definition MemoryHook_free_preprocess :: "'w callback" where
  "MemoryHook_free_preprocess kw w = (Inr PyNone, w)"

definition MemoryHook_free_postprocess :: "'w callback" where
  "MemoryHook_free_postprocess kw w = (Inr PyNone, w)"

text \<open>\<open>MemoryHook()\<close>: an instance (with identity \<open>i\<close>) that overrides nothing.\<close>

definition MemoryHook :: "nat \<Rightarrow> 'w hook" where
  "MemoryHook i =
     \<lparr> hook_id = i,
       name = MemoryHook_name,
       alloc_preprocess = MemoryHook_alloc_preprocess,
       alloc_postprocess = MemoryHook_alloc_postprocess,
       malloc_preprocess = MemoryHook_malloc_preprocess,
       malloc_postprocess = MemoryHook_malloc_postprocess,
       free_preprocess = MemoryHook_free_preprocess,
       free_postprocess = MemoryHook_free_postprocess \<rparr>"

subsection \<open>\<open>collections.OrderedDict\<close>\<close>

text \<open>
  An ordered dictionary is the list of its items in insertion order. \<open>d[k] = v\<close>
  replaces the value in place when \<open>k\<close> is present and appends the item otherwise;
  \<open>del d[k]\<close> raises \<open>KeyError(k)\<close> when \<open>k\<close> is absent.
\<close>

definition od_contains :: "'k \<Rightarrow> ('k \<times> 'v) list \<Rightarrow> bool" where
  "od_contains k d = (k \<in> set (map fst d))"

fun od_setitem :: "'k \<Rightarrow> 'v \<Rightarrow> ('k \<times> 'v) list \<Rightarrow> ('k \<times> 'v) list" where
  "od_setitem k v [] = [(k, v)]"
| "od_setitem k v ((k', v') # d) =
     (if k' = k then (k, v) # d else (k', v') # od_setitem k v d)"

definition od_delitem :: "string \<Rightarrow> (string \<times> 'v) list \<Rightarrow> py_error + (string \<times> 'v) list" where
  "od_delitem k d =
     (if od_contains k d then Inr (filter (\<lambda>kv. fst kv \<noteq> k) d) else Inl (KeyError k))"

definition od_values :: "('k \<times> 'v) list \<Rightarrow> 'v list" where
  "od_values d = map snd d"

subsection \<open>The thread-local registry\<close>

text \<open>
  \<open>thread_local = threading.local()\<close>: every thread has its own attribute
  \<open>memory_hooks\<close>, absent (\<open>None\<close>) until the thread first calls
  \<open>get_memory_hooks\<close>. The state is the table of these attributes by thread.
\<close>

type_synonym tid = nat

type_synonym 'w registry = "(string \<times> 'w hook) list"

type_synonym 'w thread_local = "tid \<Rightarrow> 'w registry option"

text \<open>
  \<open>get_memory_hooks()\<close> called by thread \<open>t\<close>: creates the empty dictionary when the
  attribute is missing and returns the thread's dictionary. Python returns a reference;
  a later mutation through it is an update of the thread's slot.
\<close>

definition get_memory_hooks :: "tid \<Rightarrow> 'w thread_local \<Rightarrow> 'w registry \<times> 'w thread_local" where
  "get_memory_hooks t tls =
     (case tls t of
        None \<Rightarrow> ([], tls(t := Some []))
      | Some d \<Rightarrow> (d, tls))"

text \<open>The registry thread \<open>t\<close> sees: what \<open>get_memory_hooks()\<close> returns to it.\<close>

definition registry_of :: "'w thread_local \<Rightarrow> tid \<Rightarrow> 'w registry" where
  "registry_of tls t = fst (get_memory_hooks t tls)"

text \<open>\<open>MemoryHook.__enter__(self)\<close> on thread \<open>t\<close>: the outcome and the state left.\<close>

definition MemoryHook_enter ::
  "'w hook \<Rightarrow> tid \<Rightarrow> 'w thread_local \<Rightarrow> (py_error + 'w hook) \<times> 'w thread_local" where
  "MemoryHook_enter self t tls =
     (let (memory_hooks, tls1) = get_memory_hooks t tls in
      if od_contains (name self) memory_hooks
      then (Inl (KeyError (''memory hook '' @ name self @ '' already exists'')), tls1)
      else (Inr self, tls1(t := Some (od_setitem (name self) self memory_hooks))))"

text \<open>\<open>MemoryHook.__exit__(self, *_)\<close> on thread \<open>t\<close>; it returns \<open>None\<close>.\<close>

definition MemoryHook_exit ::
  "'w hook \<Rightarrow> tid \<Rightarrow> 'w thread_local \<Rightarrow> (py_error + pyval) \<times> 'w thread_local" where
  "MemoryHook_exit self t tls =
     (let (memory_hooks, tls1) = get_memory_hooks t tls in
      case od_delitem (name self) memory_hooks of
        Inl e \<Rightarrow> (Inl e, tls1)
      | Inr d \<Rightarrow> (Inr PyNone, tls1(t := Some d)))"

subsection \<open>The \<open>with\<close> statement\<close>

text \<open>
  How a block ends: it runs to its end, returns early, or raises.
\<close>

datatype outcome = Normal | Returned pyval | Raised py_error

definition is_raised :: "outcome \<Rightarrow> bool" where
  "is_raised out = (case out of Raised e \<Rightarrow> True | _ \<Rightarrow> False)"

definition truthy :: "pyval \<Rightarrow> bool" where
  "truthy v = (case v of PyNone \<Rightarrow> False | PyInt i \<Rightarrow> i \<noteq> 0 | PyStr s \<Rightarrow> s \<noteq> [])"

text \<open>
  Python's \<open>with hook as v: body\<close> on thread \<open>t\<close>, as the language defines it:
  \<open>__enter__\<close> runs first and, when it raises, neither the body nor \<open>__exit__\<close>
  runs; otherwise the body runs and \<open>__exit__\<close> is called however the body ended.
  An exception of \<open>__exit__\<close> replaces the body's outcome; an exception of the body is
  swallowed only when \<open>__exit__\<close> returns a true value. The body works on the
  thread-local table and on the rest of the program state \<open>'s\<close>.
\<close>

definition with_stmt ::
  "'w hook \<Rightarrow> tid \<Rightarrow> ('w hook \<Rightarrow> 'w thread_local \<times> 's \<Rightarrow> outcome \<times> 'w thread_local \<times> 's)
     \<Rightarrow> 'w thread_local \<times> 's \<Rightarrow> outcome \<times> 'w thread_local \<times> 's" where
  "with_stmt h t body st =
     (case MemoryHook_enter h t (fst st) of
        (Inl e, tls1) \<Rightarrow> (Raised e, tls1, snd st)
      | (Inr v, tls1) \<Rightarrow>
          (case body v (tls1, snd st) of
             (out, tls2, s2) \<Rightarrow>
               (case MemoryHook_exit h t tls2 of
                  (Inl e, tls3) \<Rightarrow> (Raised e, tls3, s2)
                | (Inr r, tls3) \<Rightarrow>
                    (if is_raised out \<and> truthy r then Normal else out, tls3, s2))))"


subsection \<open>The registry invariant\<close>

text \<open>
  The keys of a registry are pairwise different, and every hook is stored under its own
  name: no two registered hooks have the same name.
\<close>

definition registry_inv :: "'w registry \<Rightarrow> bool" where
  "registry_inv d = (distinct (map fst d) \<and> list_all (\<lambda>kv. fst kv = name (snd kv)) d)"

definition thread_local_inv :: "'w thread_local \<Rightarrow> bool" where
  "thread_local_inv tls = (\<forall>t. registry_inv (registry_of tls t))"

subsection \<open>The allocator facade\<close>

text \<open>The six callbacks, and the method of a hook that each one names.\<close>

datatype cb = AllocPre | AllocPost | MallocPre | MallocPost | FreePre | FreePost

fun hook_cb :: "cb \<Rightarrow> 'w hook \<Rightarrow> 'w callback" where
  "hook_cb AllocPre h = alloc_preprocess h"
| "hook_cb AllocPost h = alloc_postprocess h"
| "hook_cb MallocPre h = malloc_preprocess h"
| "hook_cb MallocPost h = malloc_postprocess h"
| "hook_cb FreePre h = free_preprocess h"
| "hook_cb FreePost h = free_postprocess h"

text \<open>
  The record of what was invoked: the callback, the identity of the hook and the
  attributes passed, one event per call, in the order of the calls.
\<close>

type_synonym event = "cb \<times> nat \<times> kwargs"

definition call_of :: "event \<Rightarrow> cb \<times> nat" where
  "call_of e = (fst e, fst (snd e))"

text \<open>The hooks on which callback \<open>c\<close> was invoked, in the order of the calls.\<close>

definition calls :: "cb \<Rightarrow> event list \<Rightarrow> nat list" where
  "calls c tr = map (\<lambda>e. fst (snd e)) (filter (\<lambda>e. fst e = c) tr)"

text \<open>Callback \<open>c\<close> invoked once on each hook of a list, in the order of the list.\<close>

definition fan_events :: "cb \<Rightarrow> kwargs \<Rightarrow> 'w hook list \<Rightarrow> event list" where
  "fan_events c kw hs = map (\<lambda>h. (c, hook_id h, kw)) hs"

definition fan_calls :: "cb \<Rightarrow> nat list \<Rightarrow> (cb \<times> nat) list" where
  "fan_calls c ids = map (\<lambda>i. (c, i)) ids"

definition invocations :: "cb \<Rightarrow> nat \<Rightarrow> event list \<Rightarrow> nat" where
  "invocations c i tr = length (filter (\<lambda>e. fst e = c \<and> fst (snd e) = i) tr)"

text \<open>Modelled from the spec: the fan-out of the allocator facade (the loops over the
  registered hooks in the memory pool, which memory\_hook.py does not contain). The
  callback is invoked on every hook of the list in turn; a callback that raises is not
  caught, so the fan-out stops there and the exception is passed on.
\<close>

fun fan_out :: "cb \<Rightarrow> kwargs \<Rightarrow> 'w hook list \<Rightarrow> 'w \<Rightarrow> py_error option \<times> event list \<times> 'w" where
  "fan_out c kw [] w = (None, [], w)"
| "fan_out c kw (h # hs) w =
     (case hook_cb c h kw w of
        (Inl e, w1) \<Rightarrow> (Some e, [(c, hook_id h, kw)], w1)
      | (Inr v, w1) \<Rightarrow>
          (case fan_out c kw hs w1 of
             (r, tr, w2) \<Rightarrow> (r, (c, hook_id h, kw) # tr, w2)))"

text \<open>The state the callbacks of a fan-out leave when they run one after the other.\<close>

definition fan_world :: "cb \<Rightarrow> kwargs \<Rightarrow> 'w hook list \<Rightarrow> 'w \<Rightarrow> 'w" where
  "fan_world c kw hs w = fold (\<lambda>h w1. snd (hook_cb c h kw w1)) hs w"

text \<open>No callback of these hooks ever raises.\<close>

definition hooks_never_fail :: "'w hook list \<Rightarrow> bool" where
  "hooks_never_fail hs = (\<forall>h \<in> set hs. \<forall>c kw w. \<not> isl (fst (hook_cb c h kw w)))"

text \<open>Modelled from the spec: the handle of a pooled block (the pool's \<open>PooledMemory\<close>,
  not in memory\_hook.py), with what the callbacks are told of it: its pointer, its byte
  size and its handle id.\<close>

record block_handle =
  mem_ptr :: int
  mem_size :: int
  pmem_id :: int

text \<open>Modelled from the spec: the collaborator allocator behind the facade (the memory pool
  and the device allocation, not in memory\_hook.py), as the interface the spec lists in
  its section 6: the device, the rounding of sizes, the search for a cached block, the
  true device allocation (which can fail on exhaustion) and the release of a block to
  the pool, all on a pool state \<open>'p\<close>. \<open>new_block\<close> wraps a fresh pointer into a
  pooled-memory handle.\<close>

record 'p allocator =
  device_id :: int
  round_size :: "int \<Rightarrow> int"
  find_cached_block :: "int \<Rightarrow> 'p \<Rightarrow> block_handle option \<times> 'p"
  allocate_from_device :: "int \<Rightarrow> int \<Rightarrow> 'p \<Rightarrow> (py_error + int) \<times> 'p"
  new_block :: "int \<Rightarrow> int \<Rightarrow> 'p \<Rightarrow> block_handle \<times> 'p"
  release_block_to_pool :: "block_handle \<Rightarrow> 'p \<Rightarrow> 'p"

text \<open>The attributes passed to each callback (the table of the callbacks' docstrings).\<close>

definition alloc_pre_kwargs :: "'p allocator \<Rightarrow> int \<Rightarrow> kwargs" where
  "alloc_pre_kwargs A rs = [(''device_id'', device_id A), (''mem_size'', rs)]"

definition alloc_post_kwargs :: "'p allocator \<Rightarrow> int \<Rightarrow> int \<Rightarrow> kwargs" where
  "alloc_post_kwargs A rs ptr =
     [(''device_id'', device_id A), (''mem_size'', rs), (''mem_ptr'', ptr)]"

definition malloc_pre_kwargs :: "'p allocator \<Rightarrow> int \<Rightarrow> kwargs" where
  "malloc_pre_kwargs A sz =
     [(''device_id'', device_id A), (''size'', sz), (''mem_size'', round_size A sz)]"

definition malloc_post_kwargs :: "'p allocator \<Rightarrow> int \<Rightarrow> int \<Rightarrow> int \<Rightarrow> kwargs" where
  "malloc_post_kwargs A sz ptr pid =
     [(''device_id'', device_id A), (''size'', sz), (''mem_size'', round_size A sz),
      (''mem_ptr'', ptr), (''pmem_id'', pid)]"

definition free_kwargs :: "'p allocator \<Rightarrow> block_handle \<Rightarrow> kwargs" where
  "free_kwargs A b =
     [(''device_id'', device_id A), (''mem_size'', mem_size b), (''mem_ptr'', mem_ptr b),
      (''pmem_id'', pmem_id b)]"

text \<open>Modelled from the spec: the three ways a step of the facade ends (section 7 of the
  spec; the facade is not in memory\_hook.py). It yields its result, or fails in the
  allocator, or is aborted by a hook that raised.\<close>

datatype 'a step = Done 'a | AllocFailed py_error | HookFailed py_error

text \<open>What the caller sees of a step: the value, or the exception, whoever raised it.\<close>

definition seen_by_caller :: "'a step \<Rightarrow> py_error + 'a" where
  "seen_by_caller r = (case r of Done x \<Rightarrow> Inr x | AllocFailed e \<Rightarrow> Inl e | HookFailed e \<Rightarrow> Inl e)"

definition aborted_by_hook :: "'a step \<Rightarrow> bool" where
  "aborted_by_hook r = (case r of HookFailed e \<Rightarrow> True | _ \<Rightarrow> False)"

text \<open>Modelled from the spec: the wrapped device allocation (step 3 of pool-acquire; the
  memory pool's code is not in memory\_hook.py). \<open>alloc_preprocess\<close> is fanned out, the
  device allocation runs, \<open>alloc_postprocess\<close> is fanned out with the pointer obtained,
  or with the sentinel 0 when the allocation failed; the allocation error is passed on
  after the post-callbacks.
\<close>

definition device_allocate ::
  "'p allocator \<Rightarrow> 'w hook list \<Rightarrow> int \<Rightarrow> 'w \<Rightarrow> 'p \<Rightarrow> int step \<times> event list \<times> 'w \<times> 'p" where
  "device_allocate A hooks rs w p =
     (case fan_out AllocPre (alloc_pre_kwargs A rs) hooks w of
        (Some e, tr1, w1) \<Rightarrow> (HookFailed e, tr1, w1, p)
      | (None, tr1, w1) \<Rightarrow>
          (case allocate_from_device A (device_id A) rs p of
             (r, p1) \<Rightarrow>
               (case fan_out AllocPost
                       (alloc_post_kwargs A rs (case r of Inl e \<Rightarrow> 0 | Inr q \<Rightarrow> q)) hooks w1 of
                  (Some e, tr2, w2) \<Rightarrow> (HookFailed e, tr1 @ tr2, w2, p1)
                | (None, tr2, w2) \<Rightarrow>
                    ((case r of Inl e \<Rightarrow> AllocFailed e | Inr q \<Rightarrow> Done q), tr1 @ tr2, w2, p1))))"

text \<open>Modelled from the spec: steps 2 and 3 of pool-acquire. A cached block of the rounded
  size is used when the pool has one, and then no device allocation and none of its
  callbacks run; otherwise the wrapped device allocation runs.
\<close>

definition find_or_allocate ::
  "'p allocator \<Rightarrow> 'w hook list \<Rightarrow> int \<Rightarrow> 'w \<Rightarrow> 'p
     \<Rightarrow> block_handle step \<times> event list \<times> 'w \<times> 'p" where
  "find_or_allocate A hooks rs w p =
     (case find_cached_block A rs p of
        (Some b, p1) \<Rightarrow> (Done b, [], w, p1)
      | (None, p1) \<Rightarrow>
          (case device_allocate A hooks rs w p1 of
             (Done q, tr, w1, p2) \<Rightarrow>
               (case new_block A q rs p2 of (b, p3) \<Rightarrow> (Done b, tr, w1, p3))
           | (AllocFailed e, tr, w1, p2) \<Rightarrow> (AllocFailed e, tr, w1, p2)
           | (HookFailed e, tr, w1, p2) \<Rightarrow> (HookFailed e, tr, w1, p2)))"

text \<open>Modelled from the spec: pool-acquire (\<open>SingleDeviceMemoryPool.malloc\<close>, whose code is
  not in memory\_hook.py; its pseudocode is in the docstring of \<open>MemoryHook\<close>), called
  by thread \<open>t\<close>. The hooks are those of the calling thread's registry, in its order.
  \<open>malloc_preprocess\<close> is fanned out, the block is found or allocated, and
  \<open>malloc_postprocess\<close> is fanned out with the result, or with the sentinels 0 when the
  allocation failed, in which case the allocation error is raised afterwards. A hook
  that raises aborts the call at that point. The result says which of the three
  happened; \<open>seen_by_caller\<close> of it is the handle returned or the exception raised.
\<close>

definition pool_acquire ::
  "'p allocator \<Rightarrow> tid \<Rightarrow> int \<Rightarrow> 'w thread_local \<Rightarrow> 'w \<Rightarrow> 'p
     \<Rightarrow> block_handle step \<times> 'w thread_local \<times> event list \<times> 'w \<times> 'p" where
  "pool_acquire A t sz tls w p =
     (case get_memory_hooks t tls of
        (reg, tls1) \<Rightarrow>
          (case fan_out MallocPre (malloc_pre_kwargs A sz) (od_values reg) w of
             (Some e, tr1, w1) \<Rightarrow> (HookFailed e, tls1, tr1, w1, p)
           | (None, tr1, w1) \<Rightarrow>
               (case find_or_allocate A (od_values reg) (round_size A sz) w1 p of
                  (HookFailed e, tr2, w2, p2) \<Rightarrow> (HookFailed e, tls1, tr1 @ tr2, w2, p2)
                | (Done b, tr2, w2, p2) \<Rightarrow>
                    (case fan_out MallocPost
                            (malloc_post_kwargs A sz (mem_ptr b) (pmem_id b))
                            (od_values reg) w2 of
                       (Some e, tr3, w3) \<Rightarrow> (HookFailed e, tls1, tr1 @ tr2 @ tr3, w3, p2)
                     | (None, tr3, w3) \<Rightarrow> (Done b, tls1, tr1 @ tr2 @ tr3, w3, p2))
                | (AllocFailed e, tr2, w2, p2) \<Rightarrow>
                    (case fan_out MallocPost (malloc_post_kwargs A sz 0 0)
                            (od_values reg) w2 of
                       (Some e', tr3, w3) \<Rightarrow> (HookFailed e', tls1, tr1 @ tr2 @ tr3, w3, p2)
                     | (None, tr3, w3) \<Rightarrow> (AllocFailed e, tls1, tr1 @ tr2 @ tr3, w3, p2)))))"

text \<open>Modelled from the spec: pool-release (\<open>PooledMemory.free\<close>, whose code is not in
  memory\_hook.py; its pseudocode is in the docstring of \<open>MemoryHook\<close>), called by
  thread \<open>t\<close>: \<open>free_preprocess\<close> is fanned out, the block goes back to the pool, and
  \<open>free_postprocess\<close> is fanned out with the same attributes. The result is the
  exception of the hook that aborted the call, if one did.
\<close>

definition pool_release ::
  "'p allocator \<Rightarrow> tid \<Rightarrow> block_handle \<Rightarrow> 'w thread_local \<Rightarrow> 'w \<Rightarrow> 'p
     \<Rightarrow> py_error option \<times> 'w thread_local \<times> event list \<times> 'w \<times> 'p" where
  "pool_release A t b tls w p =
     (case get_memory_hooks t tls of
        (reg, tls1) \<Rightarrow>
          (case fan_out FreePre (free_kwargs A b) (od_values reg) w of
             (Some e, tr1, w1) \<Rightarrow> (Some e, tls1, tr1, w1, p)
           | (None, tr1, w1) \<Rightarrow>
               (case fan_out FreePost (free_kwargs A b) (od_values reg) w1 of
                  (r, tr2, w2) \<Rightarrow> (r, tls1, tr1 @ tr2, w2, release_block_to_pool A b p))))"

text \<open>The parts of a facade call's result.\<close>

definition result_of :: "'r \<times> 'w thread_local \<times> event list \<times> 'w \<times> 'p \<Rightarrow> 'r" where
  "result_of x = fst x"

definition tls_of :: "'r \<times> 'w thread_local \<times> event list \<times> 'w \<times> 'p \<Rightarrow> 'w thread_local" where
  "tls_of x = fst (snd x)"

definition trace_of :: "'r \<times> 'w thread_local \<times> event list \<times> 'w \<times> 'p \<Rightarrow> event list" where
  "trace_of x = fst (snd (snd x))"

definition world_of :: "'r \<times> 'w thread_local \<times> event list \<times> 'w \<times> 'p \<Rightarrow> 'w" where
  "world_of x = fst (snd (snd (snd x)))"

definition pool_of :: "'r \<times> 'w thread_local \<times> event list \<times> 'w \<times> 'p \<Rightarrow> 'p" where
  "pool_of x = snd (snd (snd (snd x)))"

text \<open>The identities of the hooks registered on thread \<open>t\<close>, in registry order.\<close>

definition registered_ids :: "'w thread_local \<Rightarrow> tid \<Rightarrow> nat list" where
  "registered_ids tls t = map hook_id (od_values (registry_of tls t))"

subsection \<open>The protocol of the facade, as predicates on one call\<close>

text \<open>
  The callbacks of one pool-acquire call: on a cache hit \<open>malloc_preprocess\<close> on every
  registered hook, then \<open>malloc_postprocess\<close> on every registered hook, and nothing
  else; on a miss \<open>malloc_preprocess\<close>, \<open>alloc_preprocess\<close>, \<open>alloc_postprocess\<close>,
  \<open>malloc_postprocess\<close>, each on every registered hook.
\<close>

definition cache_hit :: "'p allocator \<Rightarrow> int \<Rightarrow> 'p \<Rightarrow> bool" where
  "cache_hit A sz p = (fst (find_cached_block A (round_size A sz) p) \<noteq> None)"

definition acquire_protocol ::
  "'p allocator \<Rightarrow> tid \<Rightarrow> int \<Rightarrow> 'w thread_local \<Rightarrow> 'w \<Rightarrow> 'p \<Rightarrow> bool" where
  "acquire_protocol A t sz tls w p =
     (let tr = trace_of (pool_acquire A t sz tls w p); ids = registered_ids tls t in
      if cache_hit A sz p
      then calls AllocPre tr = [] \<and> calls AllocPost tr = []
         \<and> calls MallocPre tr = ids \<and> calls MallocPost tr = ids
         \<and> map call_of tr = fan_calls MallocPre ids @ fan_calls MallocPost ids
      else calls MallocPre tr = ids \<and> calls AllocPre tr = ids
         \<and> calls AllocPost tr = ids \<and> calls MallocPost tr = ids
         \<and> map call_of tr =
             fan_calls MallocPre ids @ fan_calls AllocPre ids
               @ fan_calls AllocPost ids @ fan_calls MallocPost ids)"

text \<open>
  The whole sequence of callbacks of one pool-acquire call, on a cache hit or on a
  miss, for the hooks with the given identities.
\<close>

definition acquire_sequence :: "bool \<Rightarrow> nat list \<Rightarrow> (cb \<times> nat) list" where
  "acquire_sequence hit ids =
     fan_calls MallocPre ids
       @ (if hit then [] else fan_calls AllocPre ids @ fan_calls AllocPost ids)
       @ fan_calls MallocPost ids"

text \<open>
  A record of calls ends at a callback that raised: its last event is the invocation,
  on one of the hooks, that raised \<open>e\<close> and left the state \<open>w'\<close>.
\<close>

definition ends_at_raise :: "'w hook list \<Rightarrow> py_error \<Rightarrow> event list \<Rightarrow> 'w \<Rightarrow> bool" where
  "ends_at_raise hs e tr w' =
     (tr \<noteq> [] \<and> (\<exists>h \<in> set hs. \<exists>w0. fst (snd (last tr)) = hook_id h
        \<and> hook_cb (fst (last tr)) h (snd (snd (last tr))) w0 = (Inl e, w')))"



text \<open>A list is an initial segment of another.\<close>

definition initial_segment :: "'a list \<Rightarrow> 'a list \<Rightarrow> bool" where
  "initial_segment xs ys = (xs = take (length xs) ys)"

subsection \<open>Hooks, a pool and threads to run the scenarios on\<close>

text \<open>
  Three hooks on a state that counts calls: \<open>logger\<close> counts the pool-acquire calls,
  \<open>profiler\<close> overrides only the name, and the callbacks of \<open>faulty\<close> before a
  pool-acquire and before a pool-release raise.
\<close>

definition counting_callback :: "nat callback" where
  "counting_callback kw w = (Inr PyNone, Suc w)"

definition failing_callback :: "nat callback" where
  "failing_callback kw w = (Inl (HookCallbackError ''boom''), w)"

definition logger :: "nat hook" where
  "logger = (MemoryHook 1)\<lparr>name := ''logger'', malloc_preprocess := counting_callback\<rparr>"

definition profiler :: "nat hook" where
  "profiler = (MemoryHook 2)\<lparr>name := ''profiler''\<rparr>"

definition faulty :: "nat hook" where
  "faulty = (MemoryHook 3)\<lparr>name := ''faulty'', malloc_preprocess := failing_callback,
     free_preprocess := failing_callback\<rparr>"

text \<open>
  A pool that keeps its free blocks in a list, rounds sizes up to multiples of 512,
  and whose device gives out the pointer 65536 for up to 4096 bytes and is exhausted
  beyond.
\<close>

definition test_allocator :: "block_handle list allocator" where
  "test_allocator =
     \<lparr> device_id = 0,
       round_size = (\<lambda>n. ((n + 511) div 512) * 512),
       find_cached_block = (\<lambda>rs p.
          case filter (\<lambda>b. mem_size b = rs) p of
            [] \<Rightarrow> (None, p)
          | b # bs \<Rightarrow> (Some b, remove1 b p)),
       allocate_from_device = (\<lambda>dev rs p.
          if rs \<le> 4096 then (Inr 65536, p) else (Inl AllocationExhaustionError, p)),
       new_block = (\<lambda>q rs p. (\<lparr>mem_ptr = q, mem_size = rs, pmem_id = 1\<rparr>, p)),
       release_block_to_pool = (\<lambda>b p. b # p) \<rparr>"

definition cached_block :: block_handle where
  "cached_block = \<lparr>mem_ptr = 65536, mem_size = 512, pmem_id = 1\<rparr>"

text \<open>
  Thread 0 has registered \<open>logger\<close>, then \<open>profiler\<close>; in the second table it has
  registered \<open>faulty\<close>, then \<open>profiler\<close>. Thread 1 has registered nothing.
\<close>

definition two_hooks :: "nat thread_local" where
  "two_hooks = (\<lambda>t. None)(0 := Some [(''logger'', logger), (''profiler'', profiler)])"

definition faulty_first :: "nat thread_local" where
  "faulty_first = (\<lambda>t. None)(0 := Some [(''faulty'', faulty), (''profiler'', profiler)])"

text \<open>
  A hook whose callback after a pool-acquire raises, and a thread 0 that has registered
  \<open>logger\<close>, then this hook.
\<close>

definition late :: "nat hook" where
  "late = (MemoryHook 4)\<lparr>name := ''late'', malloc_postprocess := failing_callback\<rparr>"

definition late_last :: "nat thread_local" where
  "late_last = (\<lambda>t. None)(0 := Some [(''logger'', logger), (''late'', late)])"

text \<open>Thread 0 has registered \<open>logger\<close> and thread 1 has registered \<open>profiler\<close>.\<close>

definition two_threads :: "nat thread_local" where
  "two_threads =
     (\<lambda>t. None)(0 := Some [(''logger'', logger)], 1 := Some [(''profiler'', profiler)])"

section \<open>Properties\<close>

subsection \<open>Facts about the ordered dictionary\<close>

lemma od_contains_map_of: "od_contains k d \<longleftrightarrow> map_of d k \<noteq> None"
  by (simp add: od_contains_def map_of_eq_None_iff)

lemma od_setitem_absent: "\<not> od_contains k d \<Longrightarrow> od_setitem k v d = d @ [(k, v)]"
  by (induction d) (auto simp: od_contains_def)

lemma od_filter_absent: "\<not> od_contains k d \<Longrightarrow> filter (\<lambda>kv. fst kv \<noteq> k) d = d"
  by (induction d) (auto simp: od_contains_def)

lemma od_contains_filter: "\<not> od_contains k (filter (\<lambda>kv. fst kv \<noteq> k) d)"
  by (induction d) (auto simp: od_contains_def)

subsection \<open>Facts about the accessor\<close>

lemma registry_of_Some: "tls t = Some d \<Longrightarrow> registry_of tls t = d"
  by (simp add: registry_of_def get_memory_hooks_def)

lemma registry_of_None: "tls t = None \<Longrightarrow> registry_of tls t = []"
  by (simp add: registry_of_def get_memory_hooks_def)

lemma get_memory_hooks_fst: "fst (get_memory_hooks t tls) = registry_of tls t"
  by (simp add: registry_of_def)

lemma get_memory_hooks_snd: "snd (get_memory_hooks t tls) = tls(t := Some (registry_of tls t))"
  by (auto simp: registry_of_def get_memory_hooks_def split: option.splits)

lemma get_memory_hooks_eq:
  "get_memory_hooks t tls = (registry_of tls t, tls(t := Some (registry_of tls t)))"
  by (simp add: prod_eq_iff get_memory_hooks_fst get_memory_hooks_snd)

lemma registry_of_upd_same: "registry_of (tls(t := Some d)) t = d"
  by (simp add: registry_of_Some)

lemma registry_of_upd_other: "t' \<noteq> t \<Longrightarrow> registry_of (tls(t := x)) t' = registry_of tls t'"
  by (simp add: registry_of_def get_memory_hooks_def split: option.splits)

lemma registry_of_init: "registry_of (tls(t := Some (registry_of tls t))) t' = registry_of tls t'"
  by (cases "t' = t") (simp_all add: registry_of_upd_same registry_of_upd_other)

lemma contains_has_attr: "od_contains k (registry_of tls t) \<Longrightarrow> tls t = Some (registry_of tls t)"
  by (cases "tls t") (simp_all add: registry_of_None registry_of_Some od_contains_def)

subsection \<open>Entering and leaving, step by step\<close>

lemma enter_present:
  "od_contains (name h) (registry_of tls t) \<Longrightarrow>
   MemoryHook_enter h t tls =
     (Inl (KeyError (''memory hook '' @ name h @ '' already exists'')), tls)"
  using contains_has_attr [of "name h" tls t]
  by (simp add: MemoryHook_enter_def get_memory_hooks_eq fun_upd_idem)

lemma enter_absent:
  "\<not> od_contains (name h) (registry_of tls t) \<Longrightarrow>
   MemoryHook_enter h t tls = (Inr h, tls(t := Some (registry_of tls t @ [(name h, h)])))"
  by (simp add: MemoryHook_enter_def get_memory_hooks_eq od_setitem_absent)

lemma exit_present:
  "od_contains (name h) (registry_of tls t) \<Longrightarrow>
   MemoryHook_exit h t tls =
     (Inr PyNone, tls(t := Some (filter (\<lambda>kv. fst kv \<noteq> name h) (registry_of tls t))))"
  by (simp add: MemoryHook_exit_def get_memory_hooks_eq od_delitem_def)

lemma exit_absent:
  "\<not> od_contains (name h) (registry_of tls t) \<Longrightarrow>
   MemoryHook_exit h t tls = (Inl (KeyError (name h)), tls(t := Some (registry_of tls t)))"
  by (simp add: MemoryHook_exit_def get_memory_hooks_eq od_delitem_def)

subsection \<open>Duplicate registration\<close>

text \<open>
  Claim C1. On any thread \<open>t\<close>, if a hook \<open>g\<close> is registered under the name of \<open>h\<close>,
  then \<open>h.__enter__()\<close> raises the duplicate-name error (the \<open>KeyError\<close> with the
  message "memory hook <name> already exists"), the whole thread-local state is left as
  it was, so the registry of every thread is unchanged and \<open>g\<close> is still the hook
  found under that name.
\<close>

theorem enter_duplicate_fails:
  assumes "map_of (registry_of tls t) (name h) = Some g"
  shows "fst (MemoryHook_enter h t tls) =
           Inl (KeyError (''memory hook '' @ name h @ '' already exists''))
       \<and> snd (MemoryHook_enter h t tls) = tls
       \<and> registry_of (snd (MemoryHook_enter h t tls)) t = registry_of tls t
       \<and> map_of (registry_of (snd (MemoryHook_enter h t tls)) t) (name h) = Some g"
proof -
  from assms have "od_contains (name h) (registry_of tls t)"
    by (simp add: od_contains_map_of)
  then have "MemoryHook_enter h t tls =
      (Inl (KeyError (''memory hook '' @ name h @ '' already exists'')), tls)"
    by (rule enter_present)
  with assms show ?thesis by simp
qed

theorem enter_duplicate_fails_witness:
  "map_of (registry_of ((\<lambda>t. None)(0 := Some [(''MemoryHook'', MemoryHook 1 :: unit hook)])) 0)
      (name (MemoryHook 2 :: unit hook)) = Some (MemoryHook 1)
   \<and> fst (MemoryHook_enter (MemoryHook 2 :: unit hook) 0
        ((\<lambda>t. None)(0 := Some [(''MemoryHook'', MemoryHook 1)])))
       = Inl (KeyError ''memory hook MemoryHook already exists'')
   \<and> snd (MemoryHook_enter (MemoryHook 2 :: unit hook) 0
        ((\<lambda>t. None)(0 := Some [(''MemoryHook'', MemoryHook 1)])))
       = (\<lambda>t. None)(0 := Some [(''MemoryHook'', MemoryHook 1)])"
  using enter_duplicate_fails [of "(\<lambda>t. None)(0 := Some [(''MemoryHook'', MemoryHook 1 :: unit hook)])" 0
      "MemoryHook 2" "MemoryHook 1"]
  by (simp add: registry_of_Some MemoryHook_def MemoryHook_name_def)

subsection \<open>Unregistering an absent name\<close>

text \<open>
  Claim C4. On any thread \<open>t\<close>, when no entry of the thread's registry has the name of
  \<open>h\<close>, \<open>h.__exit__()\<close> raises the not-found error (\<open>KeyError\<close> of the name) and
  the registry of every thread has the entries it had. The only trace of the call is the
  one the accessor leaves: a thread that had never asked for its registry now owns the
  empty one it would have been given on first access; a thread that had one keeps the
  state as it was.
\<close>

theorem exit_absent_fails:
  assumes "\<not> od_contains (name h) (registry_of tls t)"
  shows "fst (MemoryHook_exit h t tls) = Inl (KeyError (name h))
       \<and> (\<forall>t'. registry_of (snd (MemoryHook_exit h t tls)) t' = registry_of tls t')
       \<and> snd (MemoryHook_exit h t tls) = snd (get_memory_hooks t tls)
       \<and> (tls t \<noteq> None \<longrightarrow> snd (MemoryHook_exit h t tls) = tls)"
proof -
  have eq: "MemoryHook_exit h t tls =
      (Inl (KeyError (name h)), tls(t := Some (registry_of tls t)))"
    using assms by (rule exit_absent)
  have "tls t \<noteq> None \<Longrightarrow> tls(t := Some (registry_of tls t)) = tls"
    by (auto simp: registry_of_Some fun_upd_idem)
  with eq show ?thesis
    by (simp add: registry_of_init get_memory_hooks_snd)
qed

theorem exit_absent_fails_witness:
  "\<not> od_contains (name (MemoryHook 2 :: unit hook))
        (registry_of ((\<lambda>t. None)(0 := Some [(''logger'', (MemoryHook 1)\<lparr>name := ''logger''\<rparr>)])) 0)
   \<and> fst (MemoryHook_exit (MemoryHook 2 :: unit hook) 0
        ((\<lambda>t. None)(0 := Some [(''logger'', (MemoryHook 1)\<lparr>name := ''logger''\<rparr>)])))
       = Inl (KeyError ''MemoryHook'')
   \<and> snd (MemoryHook_exit (MemoryHook 2 :: unit hook) 0
        ((\<lambda>t. None)(0 := Some [(''logger'', (MemoryHook 1)\<lparr>name := ''logger''\<rparr>)])))
       = (\<lambda>t. None)(0 := Some [(''logger'', (MemoryHook 1)\<lparr>name := ''logger''\<rparr>)])
   \<and> registry_of (snd (MemoryHook_exit (MemoryHook 2 :: unit hook) 5 (\<lambda>t. None))) 5
       = registry_of (\<lambda>t. None) 5"
  using exit_absent_fails [of "MemoryHook 2"
      "(\<lambda>t. None)(0 := Some [(''logger'', (MemoryHook 1 :: unit hook)\<lparr>name := ''logger''\<rparr>)])" 0]
    exit_absent_fails [of "MemoryHook 2 :: unit hook" "\<lambda>t. None" 5]
  by (simp add: registry_of_Some registry_of_None od_contains_def MemoryHook_def
      MemoryHook_name_def get_memory_hooks_def)

subsection \<open>Scoped registration\<close>

lemma od_contains_append_entry: "od_contains k (d @ [(k, v)])"
  by (simp add: od_contains_def)

lemma exit_after_enter:
  assumes "\<not> od_contains (name h) (registry_of tls t)"
  shows "MemoryHook_exit h t (snd (MemoryHook_enter h t tls)) =
           (Inr PyNone, tls(t := Some (registry_of tls t)))"
  using assms
  by (simp add: enter_absent exit_present registry_of_upd_same od_contains_append_entry
      od_filter_absent)

text \<open>
  Claim C3. Let the name of \<open>h\<close> be absent from the registry of thread \<open>t\<close>.
  Then \<open>__enter__\<close> succeeds and puts \<open>h\<close> at the end of the registry, and
  \<open>__exit__\<close> straight after \<open>__enter__\<close> succeeds and gives the registry back as it
  was. In \<open>with h: body\<close>, however the body ends (\<open>out\<close> is any outcome: running to
  the end, an early return, or an exception raised inside), \<open>__exit__\<close> runs on the
  state the body left. When the body has left the thread's registry as it found it, the
  block ends with the body's own outcome (an exception is passed on), in the state the
  body left except that the registry of \<open>t\<close> is again the one from before the block.
\<close>

theorem scoped_registration_restores:
  assumes absent: "\<not> od_contains (name h) (registry_of tls t)"
      and body: "body h (snd (MemoryHook_enter h t tls), s) = (out, tls2, s2)"
  shows "fst (MemoryHook_enter h t tls) = Inr h
       \<and> registry_of (snd (MemoryHook_enter h t tls)) t = registry_of tls t @ [(name h, h)]
       \<and> MemoryHook_exit h t (snd (MemoryHook_enter h t tls)) =
           (Inr PyNone, tls(t := Some (registry_of tls t)))
       \<and> fst (snd (with_stmt h t body (tls, s))) = snd (MemoryHook_exit h t tls2)
       \<and> (registry_of tls2 t = registry_of (snd (MemoryHook_enter h t tls)) t \<longrightarrow>
            with_stmt h t body (tls, s) = (out, tls2(t := Some (registry_of tls t)), s2)
          \<and> registry_of (fst (snd (with_stmt h t body (tls, s)))) t = registry_of tls t)"
proof -
  let ?tls1 = "tls(t := Some (registry_of tls t @ [(name h, h)]))"
  have enter: "MemoryHook_enter h t tls = (Inr h, ?tls1)"
    using absent by (rule enter_absent)
  have reg1: "registry_of ?tls1 t = registry_of tls t @ [(name h, h)]"
    by (rule registry_of_upd_same)
  have body': "body h (?tls1, s) = (out, tls2, s2)"
    using body enter by simp
  have always: "fst (snd (with_stmt h t body (tls, s))) = snd (MemoryHook_exit h t tls2)"
    by (cases "MemoryHook_exit h t tls2"; cases "fst (MemoryHook_exit h t tls2)")
       (simp_all add: with_stmt_def enter body')
  have kept: "with_stmt h t body (tls, s) = (out, tls2(t := Some (registry_of tls t)), s2)
          \<and> registry_of (fst (snd (with_stmt h t body (tls, s)))) t = registry_of tls t"
    if keeps: "registry_of tls2 t = registry_of (snd (MemoryHook_enter h t tls)) t"
  proof -
    have reg2: "registry_of tls2 t = registry_of tls t @ [(name h, h)]"
      using keeps enter reg1 by simp
    have "od_contains (name h) (registry_of tls2 t)"
      by (simp add: reg2 od_contains_append_entry)
    then have "MemoryHook_exit h t tls2 =
        (Inr PyNone, tls2(t := Some (filter (\<lambda>kv. fst kv \<noteq> name h) (registry_of tls2 t))))"
      by (rule exit_present)
    then have exit: "MemoryHook_exit h t tls2 = (Inr PyNone, tls2(t := Some (registry_of tls t)))"
      using absent by (simp add: reg2 od_filter_absent)
    have "with_stmt h t body (tls, s) = (out, tls2(t := Some (registry_of tls t)), s2)"
      by (simp add: with_stmt_def enter body' exit truthy_def)
    then show ?thesis by (simp add: registry_of_upd_same)
  qed
  show ?thesis
    using enter reg1 always kept exit_after_enter [OF absent]
    by (simp add: registry_of_upd_same)
qed

theorem scoped_registration_restores_witness:
  "\<not> od_contains (name (MemoryHook 1 :: unit hook)) (registry_of (\<lambda>t. None) 0)
   \<and> registry_of (snd (MemoryHook_enter (MemoryHook 1 :: unit hook) 0 (\<lambda>t. None))) 0
       = [(''MemoryHook'', MemoryHook 1)]
   \<and> with_stmt (MemoryHook 1 :: unit hook) 0
        (\<lambda>v st. (Raised (HookCallbackError ''boom''), st)) (\<lambda>t. None, ())
       = (Raised (HookCallbackError ''boom''), (\<lambda>t. None)(0 := Some []), ())
   \<and> with_stmt (MemoryHook 2 :: unit hook) 0 (\<lambda>v st. (Normal, st))
        ((\<lambda>t. None)(0 := Some [(''logger'', (MemoryHook 1)\<lparr>name := ''logger''\<rparr>)]), ())
       = (Normal, (\<lambda>t. None)(0 := Some [(''logger'', (MemoryHook 1)\<lparr>name := ''logger''\<rparr>)]), ())"
  using scoped_registration_restores [of "MemoryHook 1 :: unit hook" "\<lambda>t. None" 0
      "\<lambda>v st. (Raised (HookCallbackError ''boom''), st)" "()"
      "Raised (HookCallbackError ''boom'')"
      "snd (MemoryHook_enter (MemoryHook 1 :: unit hook) 0 (\<lambda>t. None))" "()"]
    scoped_registration_restores [of "MemoryHook 2 :: unit hook"
      "(\<lambda>t. None)(0 := Some [(''logger'', (MemoryHook 1)\<lparr>name := ''logger''\<rparr>)])" 0
      "\<lambda>v st. (Normal, st)" "()" Normal
      "snd (MemoryHook_enter (MemoryHook 2 :: unit hook) 0
         ((\<lambda>t. None)(0 := Some [(''logger'', (MemoryHook 1)\<lparr>name := ''logger''\<rparr>)])))" "()"]
  by (simp add: registry_of_def get_memory_hooks_def od_contains_def MemoryHook_def
      MemoryHook_name_def MemoryHook_enter_def MemoryHook_exit_def od_delitem_def
      with_stmt_def is_raised_def truthy_def)

lemma entry_unique:
  assumes "distinct (map fst d)" and "map_of d k = Some g" and "(k, v) \<in> set d"
  shows "v = g"
proof -
  from assms(1,3) have "map_of d k = Some v" by (rule map_of_is_SomeI)
  with assms(2) show ?thesis by simp
qed

lemma filter_distinct_entry:
  fixes d :: "('a \<times> 'b) list"
  assumes "distinct (map fst d)" and "map_of d k = Some g"
  shows "set (filter (\<lambda>kv. fst kv \<noteq> k) d) = set d - {(k, g)}"
proof (rule set_eqI)
  fix kv :: "'a \<times> 'b"
  obtain a b where kv: "kv = (a, b)" by (cases kv)
  show "kv \<in> set (filter (\<lambda>kv. fst kv \<noteq> k) d) \<longleftrightarrow> kv \<in> set d - {(k, g)}"
  proof (cases "a = k")
    case True
    then show ?thesis
      using entry_unique [OF assms, of b] by (auto simp: kv)
  next
    case False
    then show ?thesis by (simp add: kv)
  qed
qed

lemma map_of_filter_other:
  "k' \<noteq> k \<Longrightarrow> map_of (filter (\<lambda>kv. fst kv \<noteq> k) d) k' = map_of d k'"
  by (induction d) auto

lemma map_of_filter_same: "map_of (filter (\<lambda>kv. fst kv \<noteq> k) d) k = None"
  by (induction d) auto

subsection \<open>Leaving a scope unregisters by name\<close>

text \<open>
  Claim C10. \<open>__exit__\<close> deletes whatever entry has the hook's name, without
  checking anything. (1) When no entry has the name, \<open>__exit__\<close> raises
  \<open>KeyError\<close> of the name. (2) So when the body of a \<open>with\<close> block leaves the
  registry without an entry of that name, the block itself ends with that
  \<open>KeyError\<close>, whatever the body's own outcome was, and the registry stays as the body
  left it. (3) When some hook \<open>g\<close>, the same or another, is stored under the name,
  \<open>__exit__\<close> succeeds and removes that entry: the name is absent afterwards, every
  other name maps to what it did, and with pairwise different keys the entries left are
  the old ones without \<open>(name, g)\<close>. (4) A second \<open>__exit__\<close> straight after a
  successful one raises \<open>KeyError\<close>: unregistering is not idempotent.
\<close>

theorem exit_by_name_unconditional:
  "(\<not> od_contains (name h) (registry_of tls t) \<longrightarrow>
      fst (MemoryHook_exit h t tls) = Inl (KeyError (name h)))
   \<and> (fst (MemoryHook_enter h t tls0) = Inr v
        \<and> body v (snd (MemoryHook_enter h t tls0), s) = (out, tls2, s2)
        \<and> \<not> od_contains (name h) (registry_of tls2 t) \<longrightarrow>
      fst (with_stmt h t body (tls0, s)) = Raised (KeyError (name h))
      \<and> registry_of (fst (snd (with_stmt h t body (tls0, s)))) t = registry_of tls2 t)
   \<and> (map_of (registry_of tls t) (name h) = Some g \<longrightarrow>
      fst (MemoryHook_exit h t tls) = Inr PyNone
      \<and> registry_of (snd (MemoryHook_exit h t tls)) t =
          filter (\<lambda>kv. fst kv \<noteq> name h) (registry_of tls t)
      \<and> map_of (registry_of (snd (MemoryHook_exit h t tls)) t) (name h) = None
      \<and> (\<forall>k. k \<noteq> name h \<longrightarrow>
            map_of (registry_of (snd (MemoryHook_exit h t tls)) t) k = map_of (registry_of tls t) k)
      \<and> (distinct (map fst (registry_of tls t)) \<longrightarrow>
            set (registry_of (snd (MemoryHook_exit h t tls)) t) =
              set (registry_of tls t) - {(name h, g)})
      \<and> fst (MemoryHook_exit h t (snd (MemoryHook_exit h t tls))) = Inl (KeyError (name h)))"
proof (intro conjI impI)
  assume "\<not> od_contains (name h) (registry_of tls t)"
  then show "fst (MemoryHook_exit h t tls) = Inl (KeyError (name h))"
    by (simp add: exit_absent)
next
  assume a: "fst (MemoryHook_enter h t tls0) = Inr v
        \<and> body v (snd (MemoryHook_enter h t tls0), s) = (out, tls2, s2)
        \<and> \<not> od_contains (name h) (registry_of tls2 t)"
  then have ex: "MemoryHook_exit h t tls2 =
      (Inl (KeyError (name h)), tls2(t := Some (registry_of tls2 t)))"
    by (simp add: exit_absent)
  obtain tls1 where en: "MemoryHook_enter h t tls0 = (Inr v, tls1)"
    using a by (cases "MemoryHook_enter h t tls0") auto
  with a have b: "body v (tls1, s) = (out, tls2, s2)" by simp
  have w: "with_stmt h t body (tls0, s) =
      (Raised (KeyError (name h)), tls2(t := Some (registry_of tls2 t)), s2)"
    by (simp add: with_stmt_def en b ex)
  show "fst (with_stmt h t body (tls0, s)) = Raised (KeyError (name h))"
    by (simp add: w)
  show "registry_of (fst (snd (with_stmt h t body (tls0, s)))) t = registry_of tls2 t"
    by (simp add: w registry_of_upd_same)
next
  assume g: "map_of (registry_of tls t) (name h) = Some g"
  then have c: "od_contains (name h) (registry_of tls t)"
    by (simp add: od_contains_map_of)
  note ex = exit_present [OF c]
  show "fst (MemoryHook_exit h t tls) = Inr PyNone"
    by (simp add: ex)
  show r: "registry_of (snd (MemoryHook_exit h t tls)) t =
      filter (\<lambda>kv. fst kv \<noteq> name h) (registry_of tls t)"
    by (simp add: ex registry_of_upd_same)
  show "map_of (registry_of (snd (MemoryHook_exit h t tls)) t) (name h) = None"
    by (simp only: r map_of_filter_same)
  show "\<forall>k. k \<noteq> name h \<longrightarrow>
      map_of (registry_of (snd (MemoryHook_exit h t tls)) t) k = map_of (registry_of tls t) k"
    by (simp only: r) (simp add: map_of_filter_other)
  have "\<not> od_contains (name h) (registry_of (snd (MemoryHook_exit h t tls)) t)"
    by (simp only: r) (rule od_contains_filter)
  then show "fst (MemoryHook_exit h t (snd (MemoryHook_exit h t tls))) = Inl (KeyError (name h))"
    by (simp add: exit_absent)
  assume "distinct (map fst (registry_of tls t))"
  then show "set (registry_of (snd (MemoryHook_exit h t tls)) t) =
      set (registry_of tls t) - {(name h, g)}"
    using g by (simp only: r) (rule filter_distinct_entry)
qed


theorem exit_by_name_unconditional_witness:
  "fst (MemoryHook_exit (MemoryHook 1 :: unit hook) 0 (\<lambda>t. None)) = Inl (KeyError ''MemoryHook'')
   \<and> fst (with_stmt (MemoryHook 1 :: unit hook) 0
         (\<lambda>v st. (Normal, snd (MemoryHook_exit v 0 (fst st)), snd st)) (\<lambda>t. None, ()))
       = Raised (KeyError ''MemoryHook'')
   \<and> map_of (registry_of ((\<lambda>t. None)(0 := Some [(''MemoryHook'', MemoryHook 1 :: unit hook)])) 0)
        (name (MemoryHook 2 :: unit hook)) = Some (MemoryHook 1)
   \<and> fst (MemoryHook_exit (MemoryHook 2 :: unit hook) 0
         ((\<lambda>t. None)(0 := Some [(''MemoryHook'', MemoryHook 1)]))) = Inr PyNone
   \<and> registry_of (snd (MemoryHook_exit (MemoryHook 2 :: unit hook) 0
         ((\<lambda>t. None)(0 := Some [(''MemoryHook'', MemoryHook 1)])))) 0 = []
   \<and> fst (MemoryHook_exit (MemoryHook 2 :: unit hook) 0
         (snd (MemoryHook_exit (MemoryHook 2 :: unit hook) 0
           ((\<lambda>t. None)(0 := Some [(''MemoryHook'', MemoryHook 1)])))))
       = Inl (KeyError ''MemoryHook'')"
  using exit_by_name_unconditional [where h = "MemoryHook 1 :: unit hook" and tls = "\<lambda>t. None"
      and t = 0 and tls0 = "\<lambda>t. None" and v = "MemoryHook 1"
      and body = "\<lambda>v st. (Normal, snd (MemoryHook_exit v 0 (fst st)), snd st)"
      and s = "()" and out = Normal and ?s2.0 = "()"
      and ?tls2.0 = "snd (MemoryHook_exit (MemoryHook 1 :: unit hook) 0
                       (snd (MemoryHook_enter (MemoryHook 1 :: unit hook) 0 (\<lambda>t. None))))"
      and g = "MemoryHook 1"]
    exit_by_name_unconditional [where h = "MemoryHook 2 :: unit hook"
      and tls = "(\<lambda>t. None)(0 := Some [(''MemoryHook'', MemoryHook 1 :: unit hook)])"
      and t = 0 and tls0 = "\<lambda>t. None" and v = "MemoryHook 1"
      and body = "\<lambda>v st. (Normal, st)"
      and s = "()" and out = Normal and ?s2.0 = "()"
      and ?tls2.0 = "\<lambda>t. None"
      and g = "MemoryHook 1"]
  by (simp add: registry_of_def get_memory_hooks_def od_contains_def MemoryHook_def
      MemoryHook_name_def MemoryHook_enter_def MemoryHook_exit_def od_delitem_def
      with_stmt_def is_raised_def truthy_def)

subsection \<open>The default name\<close>

text \<open>
  Claim C9. The class attribute \<open>name\<close> is \<open>'MemoryHook'\<close>; an instance that
  overrides nothing has it, and so has an instance of a class that overrides any of the
  six callbacks but not the name. Whenever two hooks \<open>ha\<close> and \<open>hb\<close> both have the
  default name and \<open>ha\<close> has been registered on thread \<open>t\<close>, registering \<open>hb\<close>
  on \<open>t\<close> raises the duplicate-name \<open>KeyError\<close> and leaves the state as it was;
  the same holds in any state in which the default name is registered on \<open>t\<close>.
\<close>

theorem default_name_collides:
  "MemoryHook_name = ''MemoryHook''
   \<and> name (MemoryHook i :: 'w hook) = ''MemoryHook''
   \<and> name ((MemoryHook i :: 'w hook)\<lparr>alloc_preprocess := f1, alloc_postprocess := f2,
         malloc_preprocess := f3, malloc_postprocess := f4, free_preprocess := f5,
         free_postprocess := f6\<rparr>) = ''MemoryHook''
   \<and> (name ha = MemoryHook_name \<and> name (hb :: 'w hook) = MemoryHook_name
        \<and> fst (MemoryHook_enter ha t tls) = Inr v \<longrightarrow>
      MemoryHook_enter hb t (snd (MemoryHook_enter ha t tls)) =
        (Inl (KeyError ''memory hook MemoryHook already exists''), snd (MemoryHook_enter ha t tls)))
   \<and> (name hb = MemoryHook_name \<and> od_contains MemoryHook_name (registry_of tls' t) \<longrightarrow>
      MemoryHook_enter hb t tls' =
        (Inl (KeyError ''memory hook MemoryHook already exists''), tls'))"
proof (intro conjI impI)
  show "MemoryHook_name = ''MemoryHook''" by (simp add: MemoryHook_name_def)
  show "name (MemoryHook i :: 'w hook) = ''MemoryHook''"
    by (simp add: MemoryHook_def MemoryHook_name_def)
  show "name ((MemoryHook i :: 'w hook)\<lparr>alloc_preprocess := f1, alloc_postprocess := f2,
         malloc_preprocess := f3, malloc_postprocess := f4, free_preprocess := f5,
         free_postprocess := f6\<rparr>) = ''MemoryHook''"
    by (simp add: MemoryHook_def MemoryHook_name_def)
next
  assume a: "name hb = MemoryHook_name \<and> od_contains MemoryHook_name (registry_of tls' t)"
  then have "od_contains (name hb) (registry_of tls' t)" by simp
  from enter_present [OF this] a
  show "MemoryHook_enter hb t tls' =
        (Inl (KeyError ''memory hook MemoryHook already exists''), tls')"
    by (simp add: MemoryHook_name_def)
next
  assume a: "name ha = MemoryHook_name \<and> name hb = MemoryHook_name
        \<and> fst (MemoryHook_enter ha t tls) = Inr v"
  have absent: "\<not> od_contains (name ha) (registry_of tls t)"
  proof
    assume "od_contains (name ha) (registry_of tls t)"
    from enter_present [OF this] a show False by simp
  qed
  have "registry_of (snd (MemoryHook_enter ha t tls)) t = registry_of tls t @ [(name ha, ha)]"
    by (simp add: enter_absent [OF absent] registry_of_upd_same)
  then have "od_contains (name hb) (registry_of (snd (MemoryHook_enter ha t tls)) t)"
    using a by (simp add: od_contains_append_entry)
  from enter_present [OF this] a
  show "MemoryHook_enter hb t (snd (MemoryHook_enter ha t tls)) =
        (Inl (KeyError ''memory hook MemoryHook already exists''), snd (MemoryHook_enter ha t tls))"
    by (simp add: MemoryHook_name_def)
qed

theorem default_name_collides_witness:
  "name (MemoryHook 1 :: nat hook) = MemoryHook_name
   \<and> name ((MemoryHook 2 :: nat hook)\<lparr>malloc_preprocess := \<lambda>kw w. (Inr PyNone, Suc w)\<rparr>)
       = MemoryHook_name
   \<and> fst (MemoryHook_enter (MemoryHook 1 :: nat hook) 0 (\<lambda>t. None)) = Inr (MemoryHook 1)
   \<and> fst (MemoryHook_enter
            ((MemoryHook 2 :: nat hook)\<lparr>malloc_preprocess := \<lambda>kw w. (Inr PyNone, Suc w)\<rparr>) 0
            (snd (MemoryHook_enter (MemoryHook 1 :: nat hook) 0 (\<lambda>t. None))))
       = Inl (KeyError ''memory hook MemoryHook already exists'')
   \<and> registry_of (snd (MemoryHook_enter
            ((MemoryHook 2 :: nat hook)\<lparr>malloc_preprocess := \<lambda>kw w. (Inr PyNone, Suc w)\<rparr>) 0
            (snd (MemoryHook_enter (MemoryHook 1 :: nat hook) 0 (\<lambda>t. None))))) 0
       = [(''MemoryHook'', MemoryHook 1)]"
  using default_name_collides [where ha = "MemoryHook 1 :: nat hook"
      and hb = "(MemoryHook 2 :: nat hook)\<lparr>malloc_preprocess := \<lambda>kw w. (Inr PyNone, Suc w)\<rparr>"
      and t = 0 and tls = "\<lambda>t. None" and v = "MemoryHook 1"
      and tls' = "snd (MemoryHook_enter (MemoryHook 1 :: nat hook) 0 (\<lambda>t. None))"]
  by (simp add: registry_of_def get_memory_hooks_def od_contains_def MemoryHook_def
      MemoryHook_name_def MemoryHook_enter_def)

subsection \<open>Names are unique within a registry\<close>

lemma registry_inv_Nil: "registry_inv []"
  by (simp add: registry_inv_def)

lemma registry_inv_append:
  "registry_inv d \<Longrightarrow> \<not> od_contains (name h) d \<Longrightarrow> registry_inv (d @ [(name h, h)])"
  by (simp add: registry_inv_def od_contains_def)

lemma registry_inv_filter: "registry_inv d \<Longrightarrow> registry_inv (filter P d)"
  by (simp add: registry_inv_def distinct_map_filter list_all_iff)

lemma thread_local_inv_upd:
  "thread_local_inv tls \<Longrightarrow> registry_inv d \<Longrightarrow> thread_local_inv (tls(t := Some d))"
  unfolding thread_local_inv_def
proof
  fix t'
  assume a: "\<forall>t. registry_inv (registry_of tls t)" and d: "registry_inv d"
  show "registry_inv (registry_of (tls(t := Some d)) t')"
  proof (cases "t' = t")
    case True
    with d show ?thesis by (simp add: registry_of_upd_same)
  next
    case False
    with a show ?thesis by (simp add: registry_of_upd_other)
  qed
qed

lemma registry_inv_names:
  "registry_inv d \<Longrightarrow> distinct (map (\<lambda>kv. name (snd kv)) d)"
proof -
  assume a: "registry_inv d"
  then have eq: "map (\<lambda>kv. name (snd kv)) d = map fst d"
    by (simp add: registry_inv_def list_all_iff)
  show ?thesis
    unfolding eq using a by (simp add: registry_inv_def)
qed

text \<open>
  Claim C7. The invariant: in the registry of every thread the keys are pairwise
  different and every hook is stored under its own name, so no two entries have the
  same name. It holds in the initial state, where no thread has a registry, and every
  registry operation keeps it, for every thread, whether the operation succeeds or
  raises: the creation on first access (\<open>get_memory_hooks\<close>), registration
  (\<open>__enter__\<close>) and unregistration (\<open>__exit__\<close>).
\<close>

theorem registry_names_unique:
  "thread_local_inv (\<lambda>t. None)
   \<and> (thread_local_inv tls \<longrightarrow>
        thread_local_inv (snd (get_memory_hooks t tls))
      \<and> thread_local_inv (snd (MemoryHook_enter h t tls))
      \<and> thread_local_inv (snd (MemoryHook_exit h t tls))
      \<and> (\<forall>t'. distinct (map fst (registry_of tls t'))
             \<and> distinct (map (\<lambda>kv. name (snd kv)) (registry_of tls t'))))"
proof (intro conjI impI allI)
  show "thread_local_inv (\<lambda>t. None)"
    by (simp add: thread_local_inv_def registry_of_None registry_inv_Nil)
next
  assume inv: "thread_local_inv tls"
  then have r: "registry_inv (registry_of tls t)"
    by (simp add: thread_local_inv_def)
  show "thread_local_inv (snd (get_memory_hooks t tls))"
    using inv r by (simp add: get_memory_hooks_snd thread_local_inv_upd)
  show "thread_local_inv (snd (MemoryHook_enter h t tls))"
  proof (cases "od_contains (name h) (registry_of tls t)")
    case True
    with inv show ?thesis by (simp add: enter_present)
  next
    case False
    with inv r show ?thesis
      by (simp add: enter_absent thread_local_inv_upd registry_inv_append)
  qed
  show "thread_local_inv (snd (MemoryHook_exit h t tls))"
  proof (cases "od_contains (name h) (registry_of tls t)")
    case True
    with inv r show ?thesis
      by (simp add: exit_present thread_local_inv_upd registry_inv_filter)
  next
    case False
    with inv r show ?thesis
      by (simp add: exit_absent thread_local_inv_upd)
  qed
  fix t'
  from inv have r': "registry_inv (registry_of tls t')"
    by (simp add: thread_local_inv_def)
  then show "distinct (map fst (registry_of tls t'))"
    by (simp add: registry_inv_def)
  from r' show "distinct (map (\<lambda>kv. name (snd kv)) (registry_of tls t'))"
    by (rule registry_inv_names)
qed

lemma thread_local_inv_example:
  "thread_local_inv ((\<lambda>t. None)(0 := Some [(''logger'', (MemoryHook 1 :: unit hook)\<lparr>name := ''logger''\<rparr>)]))"
  unfolding thread_local_inv_def
proof
  fix t :: nat
  show "registry_inv (registry_of ((\<lambda>t. None)(0 := Some [(''logger'', (MemoryHook 1 :: unit hook)\<lparr>name := ''logger''\<rparr>)])) t)"
    by (cases "t = 0") (simp_all add: registry_of_def get_memory_hooks_def registry_inv_def)
qed

theorem registry_names_unique_witness:
  "thread_local_inv ((\<lambda>t. None)(0 := Some [(''logger'', (MemoryHook 1 :: unit hook)\<lparr>name := ''logger''\<rparr>)]))
   \<and> thread_local_inv (snd (MemoryHook_enter (MemoryHook 2 :: unit hook) 0
        ((\<lambda>t. None)(0 := Some [(''logger'', (MemoryHook 1)\<lparr>name := ''logger''\<rparr>)]))))
   \<and> map fst (registry_of (snd (MemoryHook_enter (MemoryHook 2 :: unit hook) 0
        ((\<lambda>t. None)(0 := Some [(''logger'', (MemoryHook 1)\<lparr>name := ''logger''\<rparr>)])))) 0)
       = [''logger'', ''MemoryHook'']
   \<and> thread_local_inv (snd (MemoryHook_exit (MemoryHook 2 :: unit hook) 0
        ((\<lambda>t. None)(0 := Some [(''logger'', (MemoryHook 1)\<lparr>name := ''logger''\<rparr>)]))))"
proof -
  let ?tls = "(\<lambda>t. None)(0 := Some [(''logger'', (MemoryHook 1 :: unit hook)\<lparr>name := ''logger''\<rparr>)])"
  note ex = thread_local_inv_example
  note th = registry_names_unique [where tls = ?tls and t = 0 and h = "MemoryHook 2",
      THEN conjunct2, rule_format, OF ex]
  have m: "map fst (registry_of (snd (MemoryHook_enter (MemoryHook 2 :: unit hook) 0 ?tls)) 0)
       = [''logger'', ''MemoryHook'']"
    by (simp add: registry_of_def get_memory_hooks_def od_contains_def MemoryHook_def
        MemoryHook_name_def MemoryHook_enter_def)
  from ex th m show ?thesis by blast
qed

subsection \<open>The default callbacks\<close>

text \<open>
  Claim C8. For every attribute set \<open>kw\<close> and every state \<open>w\<close>, each of the six
  callbacks of the base class returns \<open>None\<close>, raises nothing and leaves the state as
  it is. So every callback of an instance that overrides nothing is such a no-op; a
  hook that overrides one callback (here \<open>malloc_preprocess\<close>, and the name) keeps
  the no-op for the other five.
\<close>

theorem default_callbacks_do_nothing:
  "MemoryHook_alloc_preprocess kw w = (Inr PyNone, w)
   \<and> MemoryHook_alloc_postprocess kw w = (Inr PyNone, w)
   \<and> MemoryHook_malloc_preprocess kw w = (Inr PyNone, w)
   \<and> MemoryHook_malloc_postprocess kw w = (Inr PyNone, w)
   \<and> MemoryHook_free_preprocess kw w = (Inr PyNone, w)
   \<and> MemoryHook_free_postprocess kw w = (Inr PyNone, w)
   \<and> hook_cb c (MemoryHook i) kw w = (Inr PyNone, w)
   \<and> hook_cb c ((MemoryHook i)\<lparr>name := n, malloc_preprocess := f\<rparr>) kw w =
       (if c = MallocPre then f kw w else (Inr PyNone, w))"
proof -
  have cb: "\<And>i. hook_cb c (MemoryHook i) kw w = (Inr PyNone, w)"
    by (cases c) (simp_all add: MemoryHook_def MemoryHook_alloc_preprocess_def
        MemoryHook_alloc_postprocess_def MemoryHook_malloc_preprocess_def
        MemoryHook_malloc_postprocess_def MemoryHook_free_preprocess_def
        MemoryHook_free_postprocess_def)
  have upd: "hook_cb c ((MemoryHook i)\<lparr>name := n, malloc_preprocess := f\<rparr>) kw w =
       (if c = MallocPre then f kw w else (Inr PyNone, w))"
    by (cases c) (simp_all add: MemoryHook_def MemoryHook_alloc_preprocess_def
        MemoryHook_alloc_postprocess_def MemoryHook_malloc_preprocess_def
        MemoryHook_malloc_postprocess_def MemoryHook_free_preprocess_def
        MemoryHook_free_postprocess_def)
  show ?thesis
    using cb upd
    by (simp add: MemoryHook_alloc_preprocess_def
        MemoryHook_alloc_postprocess_def MemoryHook_malloc_preprocess_def
        MemoryHook_malloc_postprocess_def MemoryHook_free_preprocess_def
        MemoryHook_free_postprocess_def)
qed

subsection \<open>The callbacks of the allocator facade\<close>

lemma calls_append: "calls c (xs @ ys) = calls c xs @ calls c ys"
  by (simp add: calls_def)

lemma calls_Nil: "calls c [] = []"
  by (simp add: calls_def)

lemma call_of_fan_events: "map call_of (fan_events c kw hs) = fan_calls c (map hook_id hs)"
  by (simp add: fan_events_def fan_calls_def call_of_def)

lemma aborted_by_hook_simps:
  "aborted_by_hook (HookFailed e)" "\<not> aborted_by_hook (Done x)" "\<not> aborted_by_hook (AllocFailed e)"
  by (simp_all add: aborted_by_hook_def)

lemma fan_out_ok:
  "hooks_never_fail hs \<Longrightarrow>
   fan_out c kw hs w = (None, fan_events c kw hs, fan_world c kw hs w)"
proof (induction hs arbitrary: w)
  case Nil
  show ?case by (simp add: fan_events_def fan_world_def)
next
  case (Cons h hs)
  from Cons.prems have rest: "hooks_never_fail hs"
    by (simp add: hooks_never_fail_def)
  from Cons.prems have "\<not> isl (fst (hook_cb c h kw w))"
    by (simp add: hooks_never_fail_def)
  then obtain v w1 where cb: "hook_cb c h kw w = (Inr v, w1)"
    by (cases "hook_cb c h kw w"; cases "fst (hook_cb c h kw w)") auto
  show ?case
    using Cons.IH [OF rest, of w1] cb
    by (simp add: fan_events_def fan_world_def)
qed

lemma fan_out_None:
  "fan_out c kw hs w = (None, tr, w') \<Longrightarrow> tr = fan_events c kw hs"
proof (induction hs arbitrary: w tr w')
  case Nil
  then show ?case by (simp add: fan_events_def)
next
  case (Cons h hs)
  obtain res w1 where cb: "hook_cb c h kw w = (res, w1)"
    by (cases "hook_cb c h kw w") auto
  show ?case
  proof (cases res)
    case (Inl e)
    with Cons.prems cb show ?thesis by simp
  next
    case (Inr v)
    obtain r2 tr2 w2 where f: "fan_out c kw hs w1 = (r2, tr2, w2)"
      by (cases "fan_out c kw hs w1") auto
    with Cons.prems cb Inr have "r2 = None" and tr: "tr = (c, hook_id h, kw) # tr2"
      by simp_all
    with f Cons.IH [of w1 tr2 w2] show ?thesis
      by (simp add: fan_events_def)
  qed
qed

lemma device_allocate_complete:
  assumes d: "device_allocate A hs rs w p = (r, tr, w', p')"
      and ok: "\<not> aborted_by_hook r"
  shows "map call_of tr =
           fan_calls AllocPre (map hook_id hs) @ fan_calls AllocPost (map hook_id hs)"
proof -
  obtain r1 tr1 w1 where f1: "fan_out AllocPre (alloc_pre_kwargs A rs) hs w = (r1, tr1, w1)"
    by (cases "fan_out AllocPre (alloc_pre_kwargs A rs) hs w") auto
  show ?thesis
  proof (cases r1)
    case (Some e)
    with d f1 have "r = HookFailed e" by (simp add: device_allocate_def)
    with ok show ?thesis by (simp add: aborted_by_hook_simps)
  next
    case None
    obtain ra p1 where al: "allocate_from_device A (device_id A) rs p = (ra, p1)"
      by (cases "allocate_from_device A (device_id A) rs p") auto
    obtain r2 tr2 w2 where f2: "fan_out AllocPost
        (alloc_post_kwargs A rs (case ra of Inl e \<Rightarrow> 0 | Inr q \<Rightarrow> q)) hs w1 = (r2, tr2, w2)"
      by (cases "fan_out AllocPost
        (alloc_post_kwargs A rs (case ra of Inl e \<Rightarrow> 0 | Inr q \<Rightarrow> q)) hs w1") auto
    show ?thesis
    proof (cases r2)
      case (Some e)
      with d f1 None al f2 have "r = HookFailed e" by (simp add: device_allocate_def)
      with ok show ?thesis by (simp add: aborted_by_hook_simps)
    next
      case n2: None
      from d f1 None al f2 n2 have "tr = tr1 @ tr2" by (simp add: device_allocate_def)
      moreover from f1 None have "tr1 = fan_events AllocPre (alloc_pre_kwargs A rs) hs"
        by (simp add: fan_out_None)
      moreover from f2 n2 have "tr2 = fan_events AllocPost
          (alloc_post_kwargs A rs (case ra of Inl e \<Rightarrow> 0 | Inr q \<Rightarrow> q)) hs"
        by (simp add: fan_out_None)
      ultimately show ?thesis by (simp add: call_of_fan_events)
    qed
  qed
qed

lemma find_or_allocate_complete:
  assumes fa: "find_or_allocate A hs rs w p = (r, tr, w', p')"
      and ok: "\<not> aborted_by_hook r"
  shows "map call_of tr =
           (if fst (find_cached_block A rs p) = None
            then fan_calls AllocPre (map hook_id hs) @ fan_calls AllocPost (map hook_id hs)
            else [])"
proof -
  obtain cached p1 where f: "find_cached_block A rs p = (cached, p1)"
    by (cases "find_cached_block A rs p") auto
  show ?thesis
  proof (cases cached)
    case (Some b)
    with fa f have "tr = []" by (simp add: find_or_allocate_def)
    with f Some show ?thesis by simp
  next
    case None
    obtain r2 tr2 w2 p2 where d: "device_allocate A hs rs w p1 = (r2, tr2, w2, p2)"
      by (cases "device_allocate A hs rs w p1") auto
    from fa f None d have "tr = tr2" and "aborted_by_hook r = aborted_by_hook r2"
      by (cases r2; auto simp: find_or_allocate_def aborted_by_hook_simps split: prod.splits)+
    with device_allocate_complete [OF d] ok f None show ?thesis by simp
  qed
qed

lemma pool_acquire_complete:
  assumes ok: "\<not> aborted_by_hook (result_of (pool_acquire A t sz tls w p))"
  shows "map call_of (trace_of (pool_acquire A t sz tls w p)) =
      fan_calls MallocPre (registered_ids tls t)
      @ (if cache_hit A sz p then []
         else fan_calls AllocPre (registered_ids tls t) @ fan_calls AllocPost (registered_ids tls t))
      @ fan_calls MallocPost (registered_ids tls t)"
proof -
  let ?hs = "od_values (registry_of tls t)"
  let ?P = "pool_acquire A t sz tls w p"
  obtain r1 tr1 w1 where f1: "fan_out MallocPre (malloc_pre_kwargs A sz) ?hs w = (r1, tr1, w1)"
    by (cases "fan_out MallocPre (malloc_pre_kwargs A sz) ?hs w") auto
  show ?thesis
  proof (cases r1)
    case (Some e)
    with f1 have "result_of ?P = HookFailed e"
      by (simp add: pool_acquire_def get_memory_hooks_eq result_of_def)
    with ok show ?thesis by (simp add: aborted_by_hook_simps)
  next
    case None
    with f1 have t1: "map call_of tr1 = fan_calls MallocPre (registered_ids tls t)"
      by (auto dest!: fan_out_None simp: call_of_fan_events registered_ids_def)
    obtain r2 tr2 w2 p2 where fa: "find_or_allocate A ?hs (round_size A sz) w1 p = (r2, tr2, w2, p2)"
      by (cases "find_or_allocate A ?hs (round_size A sz) w1 p") auto
    show ?thesis
    proof (cases r2)
      case (HookFailed e)
      with f1 None fa have "result_of ?P = HookFailed e"
        by (simp add: pool_acquire_def get_memory_hooks_eq result_of_def)
      with ok show ?thesis by (simp add: aborted_by_hook_simps)
    next
      case (Done b)
      note t2 = find_or_allocate_complete [OF fa]
      obtain r3 tr3 w3 where f3: "fan_out MallocPost
          (malloc_post_kwargs A sz (mem_ptr b) (pmem_id b)) ?hs w2 = (r3, tr3, w3)"
        by (cases "fan_out MallocPost (malloc_post_kwargs A sz (mem_ptr b) (pmem_id b)) ?hs w2") auto
      show ?thesis
      proof (cases r3)
        case (Some e)
        with f1 None fa Done f3 have "result_of ?P = HookFailed e"
          by (simp add: pool_acquire_def get_memory_hooks_eq result_of_def)
        with ok show ?thesis by (simp add: aborted_by_hook_simps)
      next
        case n3: None
        with f3 have t3: "map call_of tr3 = fan_calls MallocPost (registered_ids tls t)"
          by (auto dest!: fan_out_None simp: call_of_fan_events registered_ids_def)
        from f1 None fa Done f3 n3 have "trace_of ?P = tr1 @ tr2 @ tr3"
          by (simp add: pool_acquire_def get_memory_hooks_eq trace_of_def)
        with t1 t2 t3 Done show ?thesis
          by (simp add: aborted_by_hook_simps cache_hit_def registered_ids_def)
      qed
    next
      case (AllocFailed e)
      note t2 = find_or_allocate_complete [OF fa]
      obtain r3 tr3 w3 where f3: "fan_out MallocPost
          (malloc_post_kwargs A sz 0 0) ?hs w2 = (r3, tr3, w3)"
        by (cases "fan_out MallocPost (malloc_post_kwargs A sz 0 0) ?hs w2") auto
      show ?thesis
      proof (cases r3)
        case (Some e')
        with f1 None fa AllocFailed f3 have "result_of ?P = HookFailed e'"
          by (simp add: pool_acquire_def get_memory_hooks_eq result_of_def)
        with ok show ?thesis by (simp add: aborted_by_hook_simps)
      next
        case n3: None
        with f3 have t3: "map call_of tr3 = fan_calls MallocPost (registered_ids tls t)"
          by (auto dest!: fan_out_None simp: call_of_fan_events registered_ids_def)
        from f1 None fa AllocFailed f3 n3 have "trace_of ?P = tr1 @ tr2 @ tr3"
          by (simp add: pool_acquire_def get_memory_hooks_eq trace_of_def)
        with t1 t2 t3 AllocFailed show ?thesis
          by (simp add: aborted_by_hook_simps cache_hit_def registered_ids_def)
      qed
    qed
  qed
qed


lemma device_allocate_never_fail:
  assumes "hooks_never_fail hs"
  shows "\<not> aborted_by_hook (fst (device_allocate A hs rs w p))"
  by (cases "allocate_from_device A (device_id A) rs p")
     (simp add: device_allocate_def fan_out_ok [OF assms] aborted_by_hook_simps split: sum.splits)

lemma find_or_allocate_never_fail:
  assumes "hooks_never_fail hs"
  shows "\<not> aborted_by_hook (fst (find_or_allocate A hs rs w p))"
proof -
  obtain cached p1 where f: "find_cached_block A rs p = (cached, p1)"
    by (cases "find_cached_block A rs p") auto
  show ?thesis
  proof (cases cached)
    case (Some b)
    with f show ?thesis by (simp add: find_or_allocate_def aborted_by_hook_simps)
  next
    case None
    obtain r2 tr2 w2 p2 where d: "device_allocate A hs rs w p1 = (r2, tr2, w2, p2)"
      by (cases "device_allocate A hs rs w p1") auto
    with device_allocate_never_fail [OF assms, of A rs w p1] have "\<not> aborted_by_hook r2" by simp
    with f None d show ?thesis
      by (cases r2) (auto simp: find_or_allocate_def aborted_by_hook_simps split: prod.splits)
  qed
qed

lemma pool_acquire_never_fail:
  assumes nf: "hooks_never_fail (od_values (registry_of tls t))"
  shows "\<not> aborted_by_hook (result_of (pool_acquire A t sz tls w p))"
proof -
  let ?hs = "od_values (registry_of tls t)"
  let ?w1 = "fan_world MallocPre (malloc_pre_kwargs A sz) ?hs w"
  obtain r2 tr2 w2 p2 where fa: "find_or_allocate A ?hs (round_size A sz) ?w1 p = (r2, tr2, w2, p2)"
    by (cases "find_or_allocate A ?hs (round_size A sz) ?w1 p") auto
  with find_or_allocate_never_fail [OF nf, of A "round_size A sz" ?w1 p]
  have "\<not> aborted_by_hook r2" by simp
  then show ?thesis
    by (cases r2)
       (simp_all add: pool_acquire_def get_memory_hooks_eq fan_out_ok [OF nf] fa result_of_def
          aborted_by_hook_simps)
qed


lemma initial_segment_Nil: "initial_segment [] ys"
  by (simp add: initial_segment_def)

lemma initial_segment_take: "initial_segment (take n ys) ys"
  by (simp add: initial_segment_def min_def)

lemma initial_segment_set: "initial_segment xs ys \<Longrightarrow> set xs \<subseteq> set ys"
  unfolding initial_segment_def by (metis set_take_subset)

lemma calls_Cons:
  "calls c' ((c, i, kw) # tr) = (if c' = c then i # calls c' tr else calls c' tr)"
  by (auto simp: calls_def)

lemma fan_out_calls_eq:
  "fan_out c kw hs w = (r, tr, w') \<Longrightarrow>
   calls c' tr = (if c' = c then take (length tr) (map hook_id hs) else [])"
proof (induction hs arbitrary: w r tr w')
  case Nil
  then show ?case by (auto simp: calls_def)
next
  case (Cons h hs)
  obtain res w1 where cb: "hook_cb c h kw w = (res, w1)"
    by (cases "hook_cb c h kw w") auto
  show ?case
  proof (cases res)
    case (Inl e)
    with Cons.prems cb have "tr = [(c, hook_id h, kw)]" by simp
    then show ?thesis by (simp add: calls_Cons calls_Nil)
  next
    case (Inr v)
    obtain r2 tr2 w2 where f: "fan_out c kw hs w1 = (r2, tr2, w2)"
      by (cases "fan_out c kw hs w1") auto
    with Cons.prems cb Inr have "tr = (c, hook_id h, kw) # tr2" by simp
    then show ?thesis
      using Cons.IH [OF f] by (auto simp: calls_Cons)
  qed
qed

lemma device_allocate_calls:
  assumes "device_allocate A hs rs w p = (r, tr, w', p')"
  shows "initial_segment (calls c tr) (map hook_id hs)
       \<and> (c \<noteq> AllocPre \<and> c \<noteq> AllocPost \<longrightarrow> calls c tr = [])"
proof -
  obtain r1 tr1 w1 where f1: "fan_out AllocPre (alloc_pre_kwargs A rs) hs w = (r1, tr1, w1)"
    by (cases "fan_out AllocPre (alloc_pre_kwargs A rs) hs w") auto
  note c1 = fan_out_calls_eq [OF f1, of c]
  show ?thesis
  proof (cases r1)
    case (Some e)
    with assms f1 have "tr = tr1" by (simp add: device_allocate_def)
    then show ?thesis using c1 by (simp add: initial_segment_take initial_segment_Nil)
  next
    case None
    obtain ra p1 where al: "allocate_from_device A (device_id A) rs p = (ra, p1)"
      by (cases "allocate_from_device A (device_id A) rs p") auto
    obtain r2 tr2 w2 where f2: "fan_out AllocPost
        (alloc_post_kwargs A rs (case ra of Inl e \<Rightarrow> 0 | Inr q \<Rightarrow> q)) hs w1 = (r2, tr2, w2)"
      by (cases "fan_out AllocPost
        (alloc_post_kwargs A rs (case ra of Inl e \<Rightarrow> 0 | Inr q \<Rightarrow> q)) hs w1") auto
    note c2 = fan_out_calls_eq [OF f2, of c]
    from assms f1 None al f2 have "tr = tr1 @ tr2"
      by (cases r2) (simp_all add: device_allocate_def)
    then show ?thesis
      using c1 c2 by (simp add: calls_append initial_segment_take initial_segment_Nil)
  qed
qed

lemma find_or_allocate_calls:
  assumes "find_or_allocate A hs rs w p = (r, tr, w', p')"
  shows "initial_segment (calls c tr) (map hook_id hs)
       \<and> (c \<noteq> AllocPre \<and> c \<noteq> AllocPost \<longrightarrow> calls c tr = [])"
proof -
  obtain cached p1 where f: "find_cached_block A rs p = (cached, p1)"
    by (cases "find_cached_block A rs p") auto
  show ?thesis
  proof (cases cached)
    case (Some b)
    with assms f have "tr = []" by (simp add: find_or_allocate_def)
    then show ?thesis by (simp add: calls_Nil initial_segment_Nil)
  next
    case None
    obtain r2 tr2 w2 p2 where d: "device_allocate A hs rs w p1 = (r2, tr2, w2, p2)"
      by (cases "device_allocate A hs rs w p1") auto
    from assms f None d have "tr = tr2"
      by (cases r2) (auto simp: find_or_allocate_def split: prod.splits)
    with device_allocate_calls [OF d, of c] show ?thesis by simp
  qed
qed

lemma pool_acquire_calls:
  "initial_segment (calls c (trace_of (pool_acquire A t sz tls w p))) (registered_ids tls t)"
proof -
  let ?hs = "od_values (registry_of tls t)"
  obtain r1 tr1 w1 where f1: "fan_out MallocPre (malloc_pre_kwargs A sz) ?hs w = (r1, tr1, w1)"
    by (cases "fan_out MallocPre (malloc_pre_kwargs A sz) ?hs w") auto
  note c1 = fan_out_calls_eq [OF f1, of c]
  show ?thesis
  proof (cases r1)
    case (Some e)
    with f1 have "trace_of (pool_acquire A t sz tls w p) = tr1"
      by (simp add: pool_acquire_def get_memory_hooks_eq trace_of_def)
    then show ?thesis
      using c1 by (simp add: registered_ids_def initial_segment_take initial_segment_Nil)
  next
    case None
    obtain r2 tr2 w2 p2 where fa: "find_or_allocate A ?hs (round_size A sz) w1 p = (r2, tr2, w2, p2)"
      by (cases "find_or_allocate A ?hs (round_size A sz) w1 p") auto
    note c2 = find_or_allocate_calls [OF fa, of c]
    show ?thesis
    proof (cases r2)
      case (HookFailed e)
      with f1 None fa have "trace_of (pool_acquire A t sz tls w p) = tr1 @ tr2"
        by (simp add: pool_acquire_def get_memory_hooks_eq trace_of_def)
      then show ?thesis
        using c1 c2
        by (cases c) (simp_all add: registered_ids_def calls_append initial_segment_take initial_segment_Nil)
    next
      case (Done b)
      obtain r3 tr3 w3 where f3: "fan_out MallocPost
          (malloc_post_kwargs A sz (mem_ptr b) (pmem_id b)) ?hs w2 = (r3, tr3, w3)"
        by (cases "fan_out MallocPost (malloc_post_kwargs A sz (mem_ptr b) (pmem_id b)) ?hs w2") auto
      note c3 = fan_out_calls_eq [OF f3, of c]
      from f1 None fa Done f3 have "trace_of (pool_acquire A t sz tls w p) = tr1 @ tr2 @ tr3"
        by (cases r3) (simp_all add: pool_acquire_def get_memory_hooks_eq trace_of_def)
      then show ?thesis
        using c1 c2 c3
        by (cases c) (simp_all add: registered_ids_def calls_append initial_segment_take initial_segment_Nil)
    next
      case (AllocFailed e)
      obtain r3 tr3 w3 where f3: "fan_out MallocPost
          (malloc_post_kwargs A sz 0 0) ?hs w2 = (r3, tr3, w3)"
        by (cases "fan_out MallocPost (malloc_post_kwargs A sz 0 0) ?hs w2") auto
      note c3 = fan_out_calls_eq [OF f3, of c]
      from f1 None fa AllocFailed f3 have "trace_of (pool_acquire A t sz tls w p) = tr1 @ tr2 @ tr3"
        by (cases r3) (simp_all add: pool_acquire_def get_memory_hooks_eq trace_of_def)
      then show ?thesis
        using c1 c2 c3
        by (cases c) (simp_all add: registered_ids_def calls_append initial_segment_take initial_segment_Nil)
    qed
  qed
qed

lemma pool_release_calls:
  "initial_segment (calls c (trace_of (pool_release A t b tls w p))) (registered_ids tls t)"
proof -
  let ?hs = "od_values (registry_of tls t)"
  obtain r1 tr1 w1 where f1: "fan_out FreePre (free_kwargs A b) ?hs w = (r1, tr1, w1)"
    by (cases "fan_out FreePre (free_kwargs A b) ?hs w") auto
  note c1 = fan_out_calls_eq [OF f1, of c]
  show ?thesis
  proof (cases r1)
    case (Some e)
    with f1 have "trace_of (pool_release A t b tls w p) = tr1"
      by (simp add: pool_release_def get_memory_hooks_eq trace_of_def)
    then show ?thesis
      using c1 by (simp add: registered_ids_def initial_segment_take initial_segment_Nil)
  next
    case None
    obtain r2 tr2 w2 where f2: "fan_out FreePost (free_kwargs A b) ?hs w1 = (r2, tr2, w2)"
      by (cases "fan_out FreePost (free_kwargs A b) ?hs w1") auto
    note c2 = fan_out_calls_eq [OF f2, of c]
    from f1 None f2 have "trace_of (pool_release A t b tls w p) = tr1 @ tr2"
      by (simp add: pool_release_def get_memory_hooks_eq trace_of_def)
    then show ?thesis
      using c1 c2
      by (cases c) (simp_all add: registered_ids_def calls_append initial_segment_take initial_segment_Nil)
  qed
qed


lemma calls_call_of: "calls c tr = map snd (filter (\<lambda>x. fst x = c) (map call_of tr))"
  by (induction tr) (auto simp: calls_def call_of_def)

lemma filter_fan_calls:
  "filter (\<lambda>x. fst x = c) (fan_calls c' ids) = (if c = c' then fan_calls c' ids else [])"
  by (induction ids) (auto simp: fan_calls_def)

lemma map_snd_fan_calls: "map snd (fan_calls c ids) = ids"
  by (simp add: fan_calls_def comp_def)

lemmas scenario_defs =
  pool_acquire_def pool_release_def find_or_allocate_def device_allocate_def
  get_memory_hooks_def registry_of_def registered_ids_def od_values_def
  trace_of_def call_of_def calls_def cache_hit_def fan_world_def
  test_allocator_def cached_block_def two_hooks_def faulty_first_def two_threads_def
  logger_def profiler_def faulty_def counting_callback_def failing_callback_def
  MemoryHook_def MemoryHook_name_def
  MemoryHook_alloc_preprocess_def MemoryHook_alloc_postprocess_def
  MemoryHook_malloc_preprocess_def MemoryHook_malloc_postprocess_def
  MemoryHook_free_preprocess_def MemoryHook_free_postprocess_def

lemma never_fail_base:
  "\<not> isl (fst (hook_cb c ((MemoryHook i)\<lparr>name := n\<rparr>) kw w))"
  by (cases c) (simp_all add: MemoryHook_def MemoryHook_alloc_preprocess_def
      MemoryHook_alloc_postprocess_def MemoryHook_malloc_preprocess_def
      MemoryHook_malloc_postprocess_def MemoryHook_free_preprocess_def
      MemoryHook_free_postprocess_def)

lemma never_fail_logger: "\<not> isl (fst (hook_cb c logger kw w))"
  by (cases c) (simp_all add: logger_def counting_callback_def MemoryHook_def
      MemoryHook_alloc_preprocess_def
      MemoryHook_alloc_postprocess_def MemoryHook_malloc_preprocess_def
      MemoryHook_malloc_postprocess_def MemoryHook_free_preprocess_def
      MemoryHook_free_postprocess_def)

lemma never_fail_two_hooks: "hooks_never_fail (od_values (registry_of two_hooks 0))"
  by (simp add: hooks_never_fail_def two_hooks_def registry_of_Some od_values_def
      never_fail_logger profiler_def never_fail_base)



lemma acquire_protocol_complete:
  assumes "\<not> aborted_by_hook (result_of (pool_acquire A t sz tls w p))"
  shows "acquire_protocol A t sz tls w p"
  by (simp add: acquire_protocol_def Let_def calls_call_of pool_acquire_complete [OF assms]
      filter_fan_calls map_snd_fan_calls)

lemma initial_segment_length: "initial_segment xs ys \<Longrightarrow> length xs \<le> length ys"
proof -
  assume "initial_segment xs ys"
  then have "xs = take (length xs) ys" by (simp only: initial_segment_def)
  then have "length xs = length (take (length xs) ys)" by (rule arg_cong)
  then show ?thesis by simp
qed

lemma initial_segment_weaken: "initial_segment b ys \<Longrightarrow> initial_segment b (ys @ zs)"
proof -
  assume a: "initial_segment b ys"
  then have "length b \<le> length ys" by (rule initial_segment_length)
  with a show ?thesis by (simp add: initial_segment_def)
qed

lemma initial_segment_append: "initial_segment b ys \<Longrightarrow> initial_segment (a @ b) (a @ ys)"
  by (simp add: initial_segment_def)

lemma initial_segment_refl: "initial_segment xs xs"
  by (simp add: initial_segment_def)

lemma initial_segment_full:
  "initial_segment xs ys \<Longrightarrow> (xs = ys) = (length xs = length ys)"
  unfolding initial_segment_def by (metis order_refl take_all)

lemma fan_out_seg:
  "fan_out c kw hs w = (r, tr, w') \<Longrightarrow>
   initial_segment (map call_of tr) (fan_calls c (map hook_id hs))"
proof (induction hs arbitrary: w r tr w')
  case Nil
  then show ?case by (auto simp: initial_segment_def)
next
  case (Cons h hs)
  obtain res w1 where cb: "hook_cb c h kw w = (res, w1)"
    by (cases "hook_cb c h kw w") auto
  show ?case
  proof (cases res)
    case (Inl e)
    with Cons.prems cb have "tr = [(c, hook_id h, kw)]" by simp
    then show ?thesis by (simp add: initial_segment_def fan_calls_def call_of_def)
  next
    case (Inr v)
    obtain r2 tr2 w2 where f: "fan_out c kw hs w1 = (r2, tr2, w2)"
      by (cases "fan_out c kw hs w1") auto
    with Cons.prems cb Inr have tr: "tr = (c, hook_id h, kw) # tr2" by simp
    from Cons.IH [OF f]
    have "initial_segment ([(c, hook_id h)] @ map call_of tr2)
        ([(c, hook_id h)] @ fan_calls c (map hook_id hs))"
      by (rule initial_segment_append)
    moreover have "call_of (c, hook_id h, kw) = (c, hook_id h)"
      by (simp add: call_of_def)
    ultimately show ?thesis
      by (simp add: tr fan_calls_def)
  qed
qed

lemma device_allocate_seg:
  assumes d: "device_allocate A hs rs w p = (r, tr, w', p')"
  shows "initial_segment (map call_of tr)
           (fan_calls AllocPre (map hook_id hs) @ fan_calls AllocPost (map hook_id hs))"
proof -
  obtain r1 tr1 w1 where f1: "fan_out AllocPre (alloc_pre_kwargs A rs) hs w = (r1, tr1, w1)"
    by (cases "fan_out AllocPre (alloc_pre_kwargs A rs) hs w") auto
  note s1 = fan_out_seg [OF f1]
  show ?thesis
  proof (cases r1)
    case (Some e)
    with d f1 have "tr = tr1" by (simp add: device_allocate_def)
    with s1 show ?thesis by (simp add: initial_segment_weaken)
  next
    case None
    obtain ra p1 where al: "allocate_from_device A (device_id A) rs p = (ra, p1)"
      by (cases "allocate_from_device A (device_id A) rs p") auto
    obtain r2 tr2 w2 where f2: "fan_out AllocPost
        (alloc_post_kwargs A rs (case ra of Inl e \<Rightarrow> 0 | Inr q \<Rightarrow> q)) hs w1 = (r2, tr2, w2)"
      by (cases "fan_out AllocPost
        (alloc_post_kwargs A rs (case ra of Inl e \<Rightarrow> 0 | Inr q \<Rightarrow> q)) hs w1") auto
    note s2 = fan_out_seg [OF f2]
    from d f1 None al f2 have tr: "tr = tr1 @ tr2"
      by (cases r2) (simp_all add: device_allocate_def)
    from f1 None have t1: "map call_of tr1 = fan_calls AllocPre (map hook_id hs)"
      by (auto dest!: fan_out_None simp: call_of_fan_events)
    show ?thesis
      using s2 by (simp add: tr t1 initial_segment_append)
  qed
qed

lemma find_or_allocate_seg:
  assumes fa: "find_or_allocate A hs rs w p = (r, tr, w', p')"
  shows "initial_segment (map call_of tr)
           (if fst (find_cached_block A rs p) = None
            then fan_calls AllocPre (map hook_id hs) @ fan_calls AllocPost (map hook_id hs)
            else [])"
proof -
  obtain cached p1 where f: "find_cached_block A rs p = (cached, p1)"
    by (cases "find_cached_block A rs p") auto
  show ?thesis
  proof (cases cached)
    case (Some b)
    with fa f have "tr = []" by (simp add: find_or_allocate_def)
    with f Some show ?thesis by (simp add: initial_segment_Nil)
  next
    case None
    obtain r2 tr2 w2 p2 where d: "device_allocate A hs rs w p1 = (r2, tr2, w2, p2)"
      by (cases "device_allocate A hs rs w p1") auto
    from fa f None d have "tr = tr2"
      by (cases r2) (auto simp: find_or_allocate_def split: prod.splits)
    with device_allocate_seg [OF d] f None show ?thesis by simp
  qed
qed

lemma pool_acquire_seg:
  "initial_segment (map call_of (trace_of (pool_acquire A t sz tls w p)))
     (acquire_sequence (cache_hit A sz p) (registered_ids tls t))"
proof -
  let ?hs = "od_values (registry_of tls t)"
  let ?ids = "registered_ids tls t"
  let ?P = "pool_acquire A t sz tls w p"
  let ?X = "if cache_hit A sz p then []
            else fan_calls AllocPre ?ids @ fan_calls AllocPost ?ids"
  have seq: "acquire_sequence (cache_hit A sz p) ?ids =
      fan_calls MallocPre ?ids @ (?X @ fan_calls MallocPost ?ids)"
    by (simp add: acquire_sequence_def)
  obtain r1 tr1 w1 where f1: "fan_out MallocPre (malloc_pre_kwargs A sz) ?hs w = (r1, tr1, w1)"
    by (cases "fan_out MallocPre (malloc_pre_kwargs A sz) ?hs w") auto
  have s1: "initial_segment (map call_of tr1) (fan_calls MallocPre ?ids)"
    using fan_out_seg [OF f1] by (simp add: registered_ids_def)
  show ?thesis
  proof (cases r1)
    case (Some e)
    with f1 have "trace_of ?P = tr1"
      by (simp add: pool_acquire_def get_memory_hooks_eq trace_of_def)
    with s1 show ?thesis
      unfolding seq by (simp only: initial_segment_weaken)
  next
    case None
    with f1 have t1: "map call_of tr1 = fan_calls MallocPre ?ids"
      by (auto dest!: fan_out_None simp: call_of_fan_events registered_ids_def)
    obtain r2 tr2 w2 p2 where fa: "find_or_allocate A ?hs (round_size A sz) w1 p = (r2, tr2, w2, p2)"
      by (cases "find_or_allocate A ?hs (round_size A sz) w1 p") auto
    have s2: "initial_segment (map call_of tr2) ?X"
      using find_or_allocate_seg [OF fa]
      by (cases "fst (find_cached_block A (round_size A sz) p)")
         (simp_all add: cache_hit_def registered_ids_def)
    show ?thesis
    proof (cases r2)
      case (HookFailed e)
      with f1 None fa have tr: "trace_of ?P = tr1 @ tr2"
        by (simp add: pool_acquire_def get_memory_hooks_eq trace_of_def)
      have "initial_segment (map call_of tr2) (?X @ fan_calls MallocPost ?ids)"
        using s2 by (rule initial_segment_weaken)
      then have "initial_segment (fan_calls MallocPre ?ids @ map call_of tr2)
          (fan_calls MallocPre ?ids @ (?X @ fan_calls MallocPost ?ids))"
        by (rule initial_segment_append)
      then show ?thesis
        unfolding seq by (simp only: tr map_append t1)
    next
      case (Done b)
      have ok: "\<not> aborted_by_hook r2" by (simp add: Done aborted_by_hook_simps)
      have t2: "map call_of tr2 = ?X"
        using find_or_allocate_complete [OF fa ok] by (simp add: cache_hit_def registered_ids_def)
      obtain r3 tr3 w3 where f3: "fan_out MallocPost
          (malloc_post_kwargs A sz (mem_ptr b) (pmem_id b)) ?hs w2 = (r3, tr3, w3)"
        by (cases "fan_out MallocPost (malloc_post_kwargs A sz (mem_ptr b) (pmem_id b)) ?hs w2") auto
      have s3: "initial_segment (map call_of tr3) (fan_calls MallocPost ?ids)"
        using fan_out_seg [OF f3] by (simp add: registered_ids_def)
      from f1 None fa Done f3 have tr: "trace_of ?P = tr1 @ tr2 @ tr3"
        by (cases r3) (simp_all add: pool_acquire_def get_memory_hooks_eq trace_of_def)
      have "initial_segment (?X @ map call_of tr3) (?X @ fan_calls MallocPost ?ids)"
        using s3 by (rule initial_segment_append)
      then have "initial_segment (fan_calls MallocPre ?ids @ (?X @ map call_of tr3))
          (fan_calls MallocPre ?ids @ (?X @ fan_calls MallocPost ?ids))"
        by (rule initial_segment_append)
      then show ?thesis
        unfolding seq by (simp only: tr map_append t1 t2)
    next
      case (AllocFailed e)
      have ok: "\<not> aborted_by_hook r2" by (simp add: AllocFailed aborted_by_hook_simps)
      have t2: "map call_of tr2 = ?X"
        using find_or_allocate_complete [OF fa ok] by (simp add: cache_hit_def registered_ids_def)
      obtain r3 tr3 w3 where f3: "fan_out MallocPost
          (malloc_post_kwargs A sz 0 0) ?hs w2 = (r3, tr3, w3)"
        by (cases "fan_out MallocPost (malloc_post_kwargs A sz 0 0) ?hs w2") auto
      have s3: "initial_segment (map call_of tr3) (fan_calls MallocPost ?ids)"
        using fan_out_seg [OF f3] by (simp add: registered_ids_def)
      from f1 None fa AllocFailed f3 have tr: "trace_of ?P = tr1 @ tr2 @ tr3"
        by (cases r3) (simp_all add: pool_acquire_def get_memory_hooks_eq trace_of_def)
      have "initial_segment (?X @ map call_of tr3) (?X @ fan_calls MallocPost ?ids)"
        using s3 by (rule initial_segment_append)
      then have "initial_segment (fan_calls MallocPre ?ids @ (?X @ map call_of tr3))
          (fan_calls MallocPre ?ids @ (?X @ fan_calls MallocPost ?ids))"
        by (rule initial_segment_append)
      then show ?thesis
        unfolding seq by (simp only: tr map_append t1 t2)
    qed
  qed
qed


lemma ends_at_raise_append:
  "ends_at_raise hs e b w' \<Longrightarrow> ends_at_raise hs e (a @ b) w'"
  by (simp add: ends_at_raise_def)

lemma ends_at_raise_mono:
  "ends_at_raise hs e tr w' \<Longrightarrow> set hs \<subseteq> set hs' \<Longrightarrow> ends_at_raise hs' e tr w'"
  unfolding ends_at_raise_def by blast

lemma fan_out_abort:
  "fan_out c kw hs w = (Some e, tr, w') \<Longrightarrow> ends_at_raise hs e tr w'"
proof (induction hs arbitrary: w tr)
  case Nil
  then show ?case by simp
next
  case (Cons h hs)
  obtain res w1 where cb: "hook_cb c h kw w = (res, w1)"
    by (cases "hook_cb c h kw w") auto
  show ?case
  proof (cases res)
    case (Inl e')
    with Cons.prems cb have "tr = [(c, hook_id h, kw)]" and "e' = e" and "w1 = w'"
      by simp_all
    with cb Inl show ?thesis
      unfolding ends_at_raise_def by auto
  next
    case (Inr v)
    obtain r2 tr2 w2 where f: "fan_out c kw hs w1 = (r2, tr2, w2)"
      by (cases "fan_out c kw hs w1") auto
    with Cons.prems cb Inr
    have tr: "tr = [(c, hook_id h, kw)] @ tr2" and "r2 = Some e" and "w2 = w'"
      by simp_all
    with f have "fan_out c kw hs w1 = (Some e, tr2, w')" by simp
    then have "ends_at_raise hs e tr2 w'" by (rule Cons.IH)
    then have "ends_at_raise (h # hs) e tr2 w'"
      by (rule ends_at_raise_mono) auto
    then show ?thesis
      unfolding tr by (rule ends_at_raise_append)
  qed
qed

lemma device_allocate_abort:
  assumes d: "device_allocate A hs rs w p = (HookFailed e, tr, w', p')"
  shows "ends_at_raise hs e tr w'"
proof -
  obtain r1 tr1 w1 where f1: "fan_out AllocPre (alloc_pre_kwargs A rs) hs w = (r1, tr1, w1)"
    by (cases "fan_out AllocPre (alloc_pre_kwargs A rs) hs w") auto
  show ?thesis
  proof (cases r1)
    case (Some e1)
    with d f1 have "tr = tr1" and "e1 = e" and "w1 = w'"
      by (simp_all add: device_allocate_def)
    with f1 Some show ?thesis by (simp add: fan_out_abort)
  next
    case None
    obtain ra p1 where al: "allocate_from_device A (device_id A) rs p = (ra, p1)"
      by (cases "allocate_from_device A (device_id A) rs p") auto
    obtain r2 tr2 w2 where f2: "fan_out AllocPost
        (alloc_post_kwargs A rs (case ra of Inl e \<Rightarrow> 0 | Inr q \<Rightarrow> q)) hs w1 = (r2, tr2, w2)"
      by (cases "fan_out AllocPost
        (alloc_post_kwargs A rs (case ra of Inl e \<Rightarrow> 0 | Inr q \<Rightarrow> q)) hs w1") auto
    show ?thesis
    proof (cases r2)
      case (Some e2)
      with d f1 None al f2 have tr: "tr = tr1 @ tr2" and "e2 = e" and "w2 = w'"
        by (simp_all add: device_allocate_def)
      with f2 Some have "ends_at_raise hs e tr2 w'" by (simp add: fan_out_abort)
      then show ?thesis unfolding tr by (rule ends_at_raise_append)
    next
      case n2: None
      with d f1 None al f2 show ?thesis
        by (cases ra) (simp_all add: device_allocate_def)
    qed
  qed
qed

lemma find_or_allocate_abort:
  assumes fa: "find_or_allocate A hs rs w p = (HookFailed e, tr, w', p')"
  shows "ends_at_raise hs e tr w'"
proof -
  obtain cached p1 where f: "find_cached_block A rs p = (cached, p1)"
    by (cases "find_cached_block A rs p") auto
  show ?thesis
  proof (cases cached)
    case (Some b)
    with fa f show ?thesis by (simp add: find_or_allocate_def)
  next
    case None
    obtain r2 tr2 w2 p2 where d: "device_allocate A hs rs w p1 = (r2, tr2, w2, p2)"
      by (cases "device_allocate A hs rs w p1") auto
    from fa f None d have "r2 = HookFailed e \<and> tr2 = tr \<and> w2 = w'"
      by (cases r2) (auto simp: find_or_allocate_def split: prod.splits)
    with d have "device_allocate A hs rs w p1 = (HookFailed e, tr, w', p2)" by simp
    then show ?thesis by (rule device_allocate_abort)
  qed
qed

lemma pool_acquire_abort:
  assumes ab: "result_of (pool_acquire A t sz tls w p) = HookFailed e"
  shows "ends_at_raise (od_values (registry_of tls t)) e
           (trace_of (pool_acquire A t sz tls w p)) (world_of (pool_acquire A t sz tls w p))"
proof -
  let ?hs = "od_values (registry_of tls t)"
  let ?P = "pool_acquire A t sz tls w p"
  obtain r1 tr1 w1 where f1: "fan_out MallocPre (malloc_pre_kwargs A sz) ?hs w = (r1, tr1, w1)"
    by (cases "fan_out MallocPre (malloc_pre_kwargs A sz) ?hs w") auto
  show ?thesis
  proof (cases r1)
    case (Some e1)
    with f1 have P: "?P = (HookFailed e1, tls(t := Some (registry_of tls t)), tr1, w1, p)"
      by (simp add: pool_acquire_def get_memory_hooks_eq)
    with ab have "e1 = e" by (simp add: result_of_def)
    with f1 Some have "ends_at_raise ?hs e tr1 w1" by (simp add: fan_out_abort)
    then show ?thesis by (simp add: P trace_of_def world_of_def)
  next
    case None
    obtain r2 tr2 w2 p2 where fa: "find_or_allocate A ?hs (round_size A sz) w1 p = (r2, tr2, w2, p2)"
      by (cases "find_or_allocate A ?hs (round_size A sz) w1 p") auto
    show ?thesis
    proof (cases r2)
      case (HookFailed e2)
      with f1 None fa
      have P: "?P = (HookFailed e2, tls(t := Some (registry_of tls t)), tr1 @ tr2, w2, p2)"
        by (simp add: pool_acquire_def get_memory_hooks_eq)
      with ab have "e2 = e" by (simp add: result_of_def)
      with fa HookFailed have "ends_at_raise ?hs e tr2 w2"
        by (simp add: find_or_allocate_abort)
      then have "ends_at_raise ?hs e (tr1 @ tr2) w2" by (rule ends_at_raise_append)
      then show ?thesis by (simp add: P trace_of_def world_of_def)
    next
      case (Done b)
      obtain r3 tr3 w3 where f3: "fan_out MallocPost
          (malloc_post_kwargs A sz (mem_ptr b) (pmem_id b)) ?hs w2 = (r3, tr3, w3)"
        by (cases "fan_out MallocPost (malloc_post_kwargs A sz (mem_ptr b) (pmem_id b)) ?hs w2") auto
      show ?thesis
      proof (cases r3)
        case (Some e3)
        with f1 None fa Done f3
        have P: "?P = (HookFailed e3, tls(t := Some (registry_of tls t)), tr1 @ tr2 @ tr3, w3, p2)"
          by (simp add: pool_acquire_def get_memory_hooks_eq)
        with ab have "e3 = e" by (simp add: result_of_def)
        with f3 Some have "ends_at_raise ?hs e tr3 w3" by (simp add: fan_out_abort)
        then have "ends_at_raise ?hs e (tr1 @ tr2 @ tr3) w3"
          by (simp only: ends_at_raise_append)
        then show ?thesis by (simp add: P trace_of_def world_of_def)
      next
        case n3: None
        with f1 None fa Done f3 ab show ?thesis
          by (simp add: pool_acquire_def get_memory_hooks_eq result_of_def)
      qed
    next
      case (AllocFailed e2)
      obtain r3 tr3 w3 where f3: "fan_out MallocPost
          (malloc_post_kwargs A sz 0 0) ?hs w2 = (r3, tr3, w3)"
        by (cases "fan_out MallocPost (malloc_post_kwargs A sz 0 0) ?hs w2") auto
      show ?thesis
      proof (cases r3)
        case (Some e3)
        with f1 None fa AllocFailed f3
        have P: "?P = (HookFailed e3, tls(t := Some (registry_of tls t)), tr1 @ tr2 @ tr3, w3, p2)"
          by (simp add: pool_acquire_def get_memory_hooks_eq)
        with ab have "e3 = e" by (simp add: result_of_def)
        with f3 Some have "ends_at_raise ?hs e tr3 w3" by (simp add: fan_out_abort)
        then have "ends_at_raise ?hs e (tr1 @ tr2 @ tr3) w3"
          by (simp only: ends_at_raise_append)
        then show ?thesis by (simp add: P trace_of_def world_of_def)
      next
        case n3: None
        with f1 None fa AllocFailed f3 ab show ?thesis
          by (simp add: pool_acquire_def get_memory_hooks_eq result_of_def)
      qed
    qed
  qed
qed

lemma acquire_protocol_iff:
  "acquire_protocol A t sz tls w p =
     (map call_of (trace_of (pool_acquire A t sz tls w p)) =
        acquire_sequence (cache_hit A sz p) (registered_ids tls t))"
  by (auto simp: acquire_protocol_def Let_def acquire_sequence_def calls_call_of
      filter_fan_calls map_snd_fan_calls)

lemma hit_never_allocates:
  assumes hit: "cache_hit A sz p"
  shows "calls AllocPre (trace_of (pool_acquire A t sz tls w p)) = []
       \<and> calls AllocPost (trace_of (pool_acquire A t sz tls w p)) = []"
proof -
  let ?tr = "map call_of (trace_of (pool_acquire A t sz tls w p))"
  let ?full = "acquire_sequence True (registered_ids tls t)"
  have "initial_segment ?tr ?full"
    using pool_acquire_seg [of A t sz tls w p] hit by simp
  then have "set ?tr \<subseteq> set ?full"
    by (rule initial_segment_set)
  moreover have "\<forall>x \<in> set ?full. fst x \<noteq> AllocPre \<and> fst x \<noteq> AllocPost"
    by (auto simp: acquire_sequence_def fan_calls_def)
  ultimately have "\<forall>x \<in> set ?tr. fst x \<noteq> AllocPre \<and> fst x \<noteq> AllocPost"
    by blast
  then show ?thesis
    by (simp add: calls_call_of filter_empty_conv)
qed

text \<open>
  Claim C2, as amended. For every pool-acquire call: if the pool finds a cached block
  of the rounded size, \<open>alloc_preprocess\<close> and \<open>alloc_postprocess\<close> are never
  invoked. The callbacks invoked are always an initial part of the sequence
  \<open>malloc_preprocess\<close> on every registered hook, then (only when no cached block is
  found) \<open>alloc_preprocess\<close> on every registered hook and \<open>alloc_postprocess\<close> on
  every registered hook, then \<open>malloc_postprocess\<close> on every registered hook; so the
  order is always this one and no callback is invoked twice on a hook. The call stops
  short only at a callback that raises: the record of an aborted call ends with the
  invocation that raised. The sequence is complete, that is \<open>malloc_preprocess\<close> and
  \<open>malloc_postprocess\<close> are invoked exactly once on every hook on a hit and all
  four callbacks on a miss, exactly when no invocation is missing; this is so whenever
  no hook callback aborts the call (also when the device allocation itself fails), and
  no call is aborted on a thread whose hooks never raise. (As first stated, with
  "exactly once" and "all four fire" for every call, the claim fails: a hook whose
  \<open>malloc_preprocess\<close> raises ends the call before any \<open>malloc_postprocess\<close>.)
\<close>

theorem pool_acquire_protocol:
  "(cache_hit A sz p \<longrightarrow>
      calls AllocPre (trace_of (pool_acquire A t sz tls w p)) = []
      \<and> calls AllocPost (trace_of (pool_acquire A t sz tls w p)) = [])
   \<and> initial_segment (map call_of (trace_of (pool_acquire A t sz tls w p)))
        (acquire_sequence (cache_hit A sz p) (registered_ids tls t))
   \<and> initial_segment (calls c (trace_of (pool_acquire A t sz tls w p))) (registered_ids tls t)
   \<and> acquire_protocol A t sz tls w p =
        (length (trace_of (pool_acquire A t sz tls w p)) =
           length (acquire_sequence (cache_hit A sz p) (registered_ids tls t)))
   \<and> (\<not> aborted_by_hook (result_of (pool_acquire A t sz tls w p)) \<longrightarrow>
        acquire_protocol A t sz tls w p)
   \<and> (hooks_never_fail (od_values (registry_of tls t)) \<longrightarrow>
        \<not> aborted_by_hook (result_of (pool_acquire A t sz tls w p)))
   \<and> (result_of (pool_acquire A t sz tls w p) = HookFailed e \<longrightarrow>
        ends_at_raise (od_values (registry_of tls t)) e
          (trace_of (pool_acquire A t sz tls w p)) (world_of (pool_acquire A t sz tls w p)))"
proof -
  have seg: "initial_segment (map call_of (trace_of (pool_acquire A t sz tls w p)))
        (acquire_sequence (cache_hit A sz p) (registered_ids tls t))"
    by (rule pool_acquire_seg)
  have "acquire_protocol A t sz tls w p =
        (length (map call_of (trace_of (pool_acquire A t sz tls w p))) =
           length (acquire_sequence (cache_hit A sz p) (registered_ids tls t)))"
    by (simp only: acquire_protocol_iff initial_segment_full [OF seg])
  then have complete: "acquire_protocol A t sz tls w p =
        (length (trace_of (pool_acquire A t sz tls w p)) =
           length (acquire_sequence (cache_hit A sz p) (registered_ids tls t)))"
    by simp
  have hit: "cache_hit A sz p \<longrightarrow>
      calls AllocPre (trace_of (pool_acquire A t sz tls w p)) = []
      \<and> calls AllocPost (trace_of (pool_acquire A t sz tls w p)) = []"
    using hit_never_allocates [of A sz p t tls w] by blast
  have once: "initial_segment (calls c (trace_of (pool_acquire A t sz tls w p)))
      (registered_ids tls t)"
    by (rule pool_acquire_calls)
  have full: "\<not> aborted_by_hook (result_of (pool_acquire A t sz tls w p)) \<longrightarrow>
        acquire_protocol A t sz tls w p"
    using acquire_protocol_complete [of A t sz tls w p] by blast
  have nf: "hooks_never_fail (od_values (registry_of tls t)) \<longrightarrow>
        \<not> aborted_by_hook (result_of (pool_acquire A t sz tls w p))"
    using pool_acquire_never_fail [of tls t A sz w p] by blast
  have ab: "result_of (pool_acquire A t sz tls w p) = HookFailed e \<longrightarrow>
        ends_at_raise (od_values (registry_of tls t)) e
          (trace_of (pool_acquire A t sz tls w p)) (world_of (pool_acquire A t sz tls w p))"
    using pool_acquire_abort [of A t sz tls w p e] by blast
  from hit seg once complete full nf ab show ?thesis
    by (intro conjI)
qed

theorem pool_acquire_protocol_witness:
  "hooks_never_fail (od_values (registry_of two_hooks 0))
   \<and> registered_ids two_hooks 0 = [1, 2]
   \<and> \<not> cache_hit test_allocator 100 []
   \<and> \<not> aborted_by_hook (result_of (pool_acquire test_allocator 0 100 two_hooks 0 []))
   \<and> acquire_protocol test_allocator 0 100 two_hooks 0 []
   \<and> map call_of (trace_of (pool_acquire test_allocator 0 100 two_hooks 0 [])) =
        [(MallocPre, 1), (MallocPre, 2), (AllocPre, 1), (AllocPre, 2),
         (AllocPost, 1), (AllocPost, 2), (MallocPost, 1), (MallocPost, 2)]
   \<and> cache_hit test_allocator 100 [cached_block]
   \<and> acquire_protocol test_allocator 0 100 two_hooks 0 [cached_block]
   \<and> map call_of (trace_of (pool_acquire test_allocator 0 100 two_hooks 0 [cached_block])) =
        [(MallocPre, 1), (MallocPre, 2), (MallocPost, 1), (MallocPost, 2)]
   \<and> result_of (pool_acquire test_allocator 0 5000 two_hooks 0 [])
        = AllocFailed AllocationExhaustionError
   \<and> seen_by_caller (result_of (pool_acquire test_allocator 0 5000 two_hooks 0 []))
        = Inl AllocationExhaustionError
   \<and> acquire_protocol test_allocator 0 5000 two_hooks 0 []
   \<and> trace_of (pool_acquire test_allocator 1 100 two_threads 0 []) =
        [(MallocPre, 2, [(''device_id'', 0), (''size'', 100), (''mem_size'', 512)]),
         (AllocPre, 2, [(''device_id'', 0), (''mem_size'', 512)]),
         (AllocPost, 2, [(''device_id'', 0), (''mem_size'', 512), (''mem_ptr'', 65536)]),
         (MallocPost, 2, [(''device_id'', 0), (''size'', 100), (''mem_size'', 512),
            (''mem_ptr'', 65536), (''pmem_id'', 1)])]
   \<and> result_of (pool_acquire test_allocator 0 100 late_last 0 [cached_block])
        = HookFailed (HookCallbackError ''boom'')
   \<and> map call_of (trace_of (pool_acquire test_allocator 0 100 late_last 0 [cached_block])) =
        [(MallocPre, 1), (MallocPre, 4), (MallocPost, 1), (MallocPost, 4)]
   \<and> acquire_protocol test_allocator 0 100 late_last 0 [cached_block]
   \<and> ends_at_raise (od_values (registry_of late_last 0)) (HookCallbackError ''boom'')
        (trace_of (pool_acquire test_allocator 0 100 late_last 0 [cached_block]))
        (world_of (pool_acquire test_allocator 0 100 late_last 0 [cached_block]))
   \<and> result_of (pool_acquire test_allocator 0 100 faulty_first 0 [cached_block])
        = HookFailed (HookCallbackError ''boom'')
   \<and> calls AllocPre (trace_of (pool_acquire test_allocator 0 100 faulty_first 0 [cached_block])) = []
   \<and> calls AllocPost (trace_of (pool_acquire test_allocator 0 100 faulty_first 0 [cached_block])) = []"
proof -
  note nf = never_fail_two_hooks
  note th1 = pool_acquire_protocol [where A = test_allocator and t = 0 and sz = 100
      and tls = two_hooks and w = 0 and p = "[]" and c = MallocPre
      and e = "HookCallbackError ''boom''"]
  note th2 = pool_acquire_protocol [where A = test_allocator and t = 0 and sz = 100
      and tls = two_hooks and w = 0 and p = "[cached_block]" and c = MallocPre
      and e = "HookCallbackError ''boom''"]
  note th3 = pool_acquire_protocol [where A = test_allocator and t = 0 and sz = 5000
      and tls = two_hooks and w = 0 and p = "[]" and c = MallocPre
      and e = "HookCallbackError ''boom''"]
  note th4 = pool_acquire_protocol [where A = test_allocator and t = 0 and sz = 100
      and tls = late_last and w = 0 and p = "[cached_block]" and c = MallocPre
      and e = "HookCallbackError ''boom''"]
  note th5 = pool_acquire_protocol [where A = test_allocator and t = 0 and sz = 100
      and tls = faulty_first and w = 0 and p = "[cached_block]" and c = MallocPre
      and e = "HookCallbackError ''boom''"]
  have ids: "registered_ids two_hooks 0 = [1, 2]"
    by (simp add: scenario_defs)
  have m: "\<not> cache_hit test_allocator 100 []"
    by (simp add: scenario_defs)
  have h: "cache_hit test_allocator 100 [cached_block]"
    by (simp add: scenario_defs)
  note tail1 = th1 [THEN conjunct2, THEN conjunct2, THEN conjunct2, THEN conjunct2]
  note tail2 = th2 [THEN conjunct2, THEN conjunct2, THEN conjunct2, THEN conjunct2]
  note tail3 = th3 [THEN conjunct2, THEN conjunct2, THEN conjunct2, THEN conjunct2]
  from nf tail1 have na1: "\<not> aborted_by_hook (result_of (pool_acquire test_allocator 0 100 two_hooks 0 []))"
    by blast
  from nf tail1 have p1: "acquire_protocol test_allocator 0 100 two_hooks 0 []"
    by blast
  from nf tail2 have p2: "acquire_protocol test_allocator 0 100 two_hooks 0 [cached_block]"
    by blast
  from nf tail3 have p3: "acquire_protocol test_allocator 0 5000 two_hooks 0 []"
    by blast
  have t1: "map call_of (trace_of (pool_acquire test_allocator 0 100 two_hooks 0 [])) =
        [(MallocPre, 1), (MallocPre, 2), (AllocPre, 1), (AllocPre, 2),
         (AllocPost, 1), (AllocPost, 2), (MallocPost, 1), (MallocPost, 2)]"
    by (simp add: scenario_defs)
  have t2: "map call_of (trace_of (pool_acquire test_allocator 0 100 two_hooks 0 [cached_block])) =
        [(MallocPre, 1), (MallocPre, 2), (MallocPost, 1), (MallocPost, 2)]"
    by (simp add: scenario_defs)
  have r3: "result_of (pool_acquire test_allocator 0 5000 two_hooks 0 [])
        = AllocFailed AllocationExhaustionError"
    by (simp add: scenario_defs result_of_def)
  have s3: "seen_by_caller (result_of (pool_acquire test_allocator 0 5000 two_hooks 0 []))
        = Inl AllocationExhaustionError"
    by (simp add: r3 seen_by_caller_def)
  have kw: "trace_of (pool_acquire test_allocator 1 100 two_threads 0 []) =
        [(MallocPre, 2, [(''device_id'', 0), (''size'', 100), (''mem_size'', 512)]),
         (AllocPre, 2, [(''device_id'', 0), (''mem_size'', 512)]),
         (AllocPost, 2, [(''device_id'', 0), (''mem_size'', 512), (''mem_ptr'', 65536)]),
         (MallocPost, 2, [(''device_id'', 0), (''size'', 100), (''mem_size'', 512),
            (''mem_ptr'', 65536), (''pmem_id'', 1)])]"
    by (simp add: scenario_defs alloc_pre_kwargs_def alloc_post_kwargs_def
        malloc_pre_kwargs_def malloc_post_kwargs_def)
  have r4: "result_of (pool_acquire test_allocator 0 100 late_last 0 [cached_block])
        = HookFailed (HookCallbackError ''boom'')"
    by (simp add: scenario_defs late_def late_last_def result_of_def)
  have t4: "map call_of (trace_of (pool_acquire test_allocator 0 100 late_last 0 [cached_block])) =
        [(MallocPre, 1), (MallocPre, 4), (MallocPost, 1), (MallocPost, 4)]"
    by (simp add: scenario_defs late_def late_last_def)
  have l4: "length (trace_of (pool_acquire test_allocator 0 100 late_last 0 [cached_block])) =
      length (acquire_sequence (cache_hit test_allocator 100 [cached_block])
        (registered_ids late_last 0))"
    using arg_cong [OF t4, of length]
    by (simp add: h acquire_sequence_def fan_calls_def)
       (simp add: scenario_defs late_def late_last_def)
  note iff4 = th4 [THEN conjunct2, THEN conjunct2, THEN conjunct2, THEN conjunct1]
  note last4 = th4 [THEN conjunct2, THEN conjunct2, THEN conjunct2, THEN conjunct2,
      THEN conjunct2, THEN conjunct2]
  from iff4 l4 have p4: "acquire_protocol test_allocator 0 100 late_last 0 [cached_block]"
    by (rule iffD2)
  from last4 r4 have e4: "ends_at_raise (od_values (registry_of late_last 0))
        (HookCallbackError ''boom'')
        (trace_of (pool_acquire test_allocator 0 100 late_last 0 [cached_block]))
        (world_of (pool_acquire test_allocator 0 100 late_last 0 [cached_block]))"
    by (rule mp)
  have r5: "result_of (pool_acquire test_allocator 0 100 faulty_first 0 [cached_block])
        = HookFailed (HookCallbackError ''boom'')"
    by (simp add: scenario_defs result_of_def)
  from th5 [THEN conjunct1] h have a5: "calls AllocPre (trace_of
        (pool_acquire test_allocator 0 100 faulty_first 0 [cached_block])) = []"
    and b5: "calls AllocPost (trace_of
        (pool_acquire test_allocator 0 100 faulty_first 0 [cached_block])) = []"
    by blast+
  from nf ids m na1 p1 t1 h p2 t2 r3 s3 p3 kw r4 t4 p4 e4 r5 a5 b5 show ?thesis
    by blast
qed

theorem pool_acquire_protocol_counterexample:
  "cache_hit test_allocator 100 [cached_block]
   \<and> registered_ids faulty_first 0 = [3, 2]
   \<and> result_of (pool_acquire test_allocator 0 100 faulty_first 0 [cached_block])
        = HookFailed (HookCallbackError ''boom'')
   \<and> map call_of (trace_of (pool_acquire test_allocator 0 100 faulty_first 0 [cached_block])) =
        [(MallocPre, 3)]
   \<and> calls MallocPost (trace_of (pool_acquire test_allocator 0 100 faulty_first 0 [cached_block])) = []
   \<and> \<not> acquire_protocol test_allocator 0 100 faulty_first 0 [cached_block]"
  by (simp add: scenario_defs acquire_protocol_def result_of_def)

subsection \<open>The order of the fan-out is the order of registration\<close>









subsection \<open>Threads do not see each other's hooks\<close>

lemma tls_of_pool_acquire:
  "tls_of (pool_acquire A t sz tls w p) = tls(t := Some (registry_of tls t))"
  by (simp add: pool_acquire_def get_memory_hooks_eq tls_of_def
      split: prod.splits option.splits step.splits)

lemma tls_of_pool_release:
  "tls_of (pool_release A t b tls w p) = tls(t := Some (registry_of tls t))"
  by (simp add: pool_release_def get_memory_hooks_eq tls_of_def
      split: prod.splits option.splits)

lemma registry_of_cong: "tls' t = tls t \<Longrightarrow> registry_of tls' t = registry_of tls t"
  by (simp add: registry_of_def get_memory_hooks_def split: option.splits)

lemma pool_acquire_cong:
  assumes "tls' t = tls t"
  shows "result_of (pool_acquire A t sz tls' w p) = result_of (pool_acquire A t sz tls w p)
       \<and> trace_of (pool_acquire A t sz tls' w p) = trace_of (pool_acquire A t sz tls w p)
       \<and> world_of (pool_acquire A t sz tls' w p) = world_of (pool_acquire A t sz tls w p)
       \<and> pool_of (pool_acquire A t sz tls' w p) = pool_of (pool_acquire A t sz tls w p)"
  by (simp add: pool_acquire_def get_memory_hooks_eq registry_of_cong [of tls' t tls, OF assms]
      result_of_def trace_of_def world_of_def pool_of_def
      split: prod.splits option.splits step.splits)

lemma pool_release_cong:
  assumes "tls' t = tls t"
  shows "result_of (pool_release A t b tls' w p) = result_of (pool_release A t b tls w p)
       \<and> trace_of (pool_release A t b tls' w p) = trace_of (pool_release A t b tls w p)
       \<and> world_of (pool_release A t b tls' w p) = world_of (pool_release A t b tls w p)
       \<and> pool_of (pool_release A t b tls' w p) = pool_of (pool_release A t b tls w p)"
  by (simp add: pool_release_def get_memory_hooks_eq registry_of_cong [of tls' t tls, OF assms]
      result_of_def trace_of_def world_of_def pool_of_def
      split: prod.splits option.splits)

lemma invocations_calls: "invocations c i tr = length (filter (\<lambda>j. j = i) (calls c tr))"
  by (induction tr) (auto simp: invocations_def calls_def)

lemma not_called: "i \<notin> set (calls c tr) \<Longrightarrow> invocations c i tr = 0"
  by (auto simp: invocations_calls filter_empty_conv)

lemma enter_other_thread: "ta \<noteq> tb \<Longrightarrow> snd (MemoryHook_enter h ta tls) tb = tls tb"
  by (cases "od_contains (name h) (registry_of tls ta)") (simp_all add: enter_present enter_absent)

lemma exit_other_thread: "ta \<noteq> tb \<Longrightarrow> snd (MemoryHook_exit h ta tls) tb = tls tb"
  by (cases "od_contains (name h) (registry_of tls ta)") (simp_all add: exit_present exit_absent)

text \<open>
  Claim C6. For different threads \<open>ta\<close> and \<open>tb\<close>: creating the registry,
  registering, unregistering and the allocator calls of \<open>ta\<close> leave the slot of
  \<open>tb\<close>, hence its registry, as it was. An allocator call of \<open>tb\<close> invokes
  callbacks only on hooks of \<open>tb\<close>'s registry, so a hook that is not registered on
  \<open>tb\<close> (one registered only on \<open>ta\<close>) is invoked zero times; and the call's
  result, callbacks, state and pool are the same in any two tables that agree on the
  slot of \<open>tb\<close>, whatever the other threads have registered.
\<close>

theorem threads_isolated:
  assumes "ta \<noteq> tb"
  shows "snd (get_memory_hooks ta tls) tb = tls tb
       \<and> snd (MemoryHook_enter h ta tls) tb = tls tb
       \<and> snd (MemoryHook_exit h ta tls) tb = tls tb
       \<and> tls_of (pool_acquire A ta sz tls w p) tb = tls tb
       \<and> tls_of (pool_release A ta b tls w p) tb = tls tb
       \<and> registry_of (snd (MemoryHook_enter h ta tls)) tb = registry_of tls tb
       \<and> registry_of (snd (MemoryHook_exit h ta tls)) tb = registry_of tls tb
       \<and> set (calls c (trace_of (pool_acquire A tb sz tls w p))) \<subseteq> set (registered_ids tls tb)
       \<and> set (calls c (trace_of (pool_release A tb b tls w p))) \<subseteq> set (registered_ids tls tb)
       \<and> (hook_id g \<notin> set (registered_ids tls tb) \<longrightarrow>
            invocations c (hook_id g) (trace_of (pool_acquire A tb sz tls w p)) = 0
          \<and> invocations c (hook_id g) (trace_of (pool_release A tb b tls w p)) = 0)
       \<and> (tls' tb = tls tb \<longrightarrow>
            result_of (pool_acquire A tb sz tls' w p) = result_of (pool_acquire A tb sz tls w p)
          \<and> trace_of (pool_acquire A tb sz tls' w p) = trace_of (pool_acquire A tb sz tls w p)
          \<and> world_of (pool_acquire A tb sz tls' w p) = world_of (pool_acquire A tb sz tls w p)
          \<and> pool_of (pool_acquire A tb sz tls' w p) = pool_of (pool_acquire A tb sz tls w p)
          \<and> result_of (pool_release A tb b tls' w p) = result_of (pool_release A tb b tls w p)
          \<and> trace_of (pool_release A tb b tls' w p) = trace_of (pool_release A tb b tls w p)
          \<and> world_of (pool_release A tb b tls' w p) = world_of (pool_release A tb b tls w p)
          \<and> pool_of (pool_release A tb b tls' w p) = pool_of (pool_release A tb b tls w p))"
proof -
  have e: "snd (MemoryHook_enter h ta tls) tb = tls tb"
    using assms by (rule enter_other_thread)
  have x: "snd (MemoryHook_exit h ta tls) tb = tls tb"
    using assms by (rule exit_other_thread)
  have g: "snd (get_memory_hooks ta tls) tb = tls tb"
    using assms by (simp add: get_memory_hooks_snd)
  have a: "tls_of (pool_acquire A ta sz tls w p) tb = tls tb"
    using assms by (simp add: tls_of_pool_acquire)
  have r: "tls_of (pool_release A ta b tls w p) tb = tls tb"
    using assms by (simp add: tls_of_pool_release)
  have sa: "set (calls c (trace_of (pool_acquire A tb sz tls w p))) \<subseteq> set (registered_ids tls tb)"
    by (rule initial_segment_set) (rule pool_acquire_calls)
  have sr: "set (calls c (trace_of (pool_release A tb b tls w p))) \<subseteq> set (registered_ids tls tb)"
    by (rule initial_segment_set) (rule pool_release_calls)
  have inv: "hook_id g \<notin> set (registered_ids tls tb) \<Longrightarrow>
            invocations c (hook_id g) (trace_of (pool_acquire A tb sz tls w p)) = 0
          \<and> invocations c (hook_id g) (trace_of (pool_release A tb b tls w p)) = 0"
    using sa sr by (auto intro!: not_called)
  show ?thesis
    using e x g a r sa sr inv pool_acquire_cong [of tls' tb tls A sz w p]
      pool_release_cong [of tls' tb tls A b w p]
      registry_of_cong [of "snd (MemoryHook_enter h ta tls)" tb tls, OF e]
      registry_of_cong [of "snd (MemoryHook_exit h ta tls)" tb tls, OF x]
    by simp
qed

theorem threads_isolated_witness:
  "(0::nat) \<noteq> 1
   \<and> registered_ids two_threads 0 = [1]
   \<and> registered_ids two_threads 1 = [2]
   \<and> snd (MemoryHook_enter faulty 0 two_threads) 1 = two_threads 1
   \<and> registered_ids (snd (MemoryHook_enter faulty 0 two_threads)) 0 = [1, 3]
   \<and> map call_of (trace_of (pool_acquire test_allocator 1 100
         (snd (MemoryHook_enter faulty 0 two_threads)) 0 []))
       = [(MallocPre, 2), (AllocPre, 2), (AllocPost, 2), (MallocPost, 2)]
   \<and> invocations MallocPre (hook_id logger) (trace_of (pool_acquire test_allocator 1 100 two_threads 0 [])) = 0
   \<and> invocations MallocPre (hook_id faulty) (trace_of (pool_acquire test_allocator 1 100
         (snd (MemoryHook_enter faulty 0 two_threads)) 0 [])) = 0"
proof -
  have ne: "(0::nat) \<noteq> 1" by simp
  note th = threads_isolated [OF ne, where tls = two_threads and h = faulty
      and A = test_allocator and sz = 100 and w = 0 and p = "[]" and b = cached_block
      and c = MallocPre and g = logger and tls' = "snd (MemoryHook_enter faulty 0 two_threads)"]
  have i0: "registered_ids two_threads 0 = [1]" by (simp add: scenario_defs)
  have i1: "registered_ids two_threads 1 = [2]" by (simp add: scenario_defs)
  have i2: "registered_ids (snd (MemoryHook_enter faulty 0 two_threads)) 0 = [1, 3]"
    by (simp add: scenario_defs MemoryHook_enter_def od_contains_def)
  have notin: "hook_id logger \<notin> set (registered_ids two_threads 1)"
    by (simp add: i1) (simp add: scenario_defs)
  have t: "map call_of (trace_of (pool_acquire test_allocator 1 100 two_threads 0 []))
       = [(MallocPre, 2), (AllocPre, 2), (AllocPost, 2), (MallocPost, 2)]"
    by (simp add: scenario_defs)
  from th have same: "snd (MemoryHook_enter faulty 0 two_threads) 1 = two_threads 1" by simp
  with th have tr: "trace_of (pool_acquire test_allocator 1 100
         (snd (MemoryHook_enter faulty 0 two_threads)) 0 [])
       = trace_of (pool_acquire test_allocator 1 100 two_threads 0 [])" by simp
  from th notin have z: "invocations MallocPre (hook_id logger)
      (trace_of (pool_acquire test_allocator 1 100 two_threads 0 [])) = 0" by simp
  have z2: "invocations MallocPre (hook_id faulty)
      (trace_of (pool_acquire test_allocator 1 100 two_threads 0 [])) = 0"
    by (simp add: scenario_defs invocations_def)
  show ?thesis
    using ne i0 i1 i2 same t z z2 by (simp only: tr) simp
qed

end
